theory Spec2Isabelle
  imports Main "HOL-Library.AList" "HOL-Library.Sublist"
begin

section \<open>Values and strings of the host language\<close>

text \<open>
  Values that are not covered by a TypeScript interface at run time (a record read back
  from storage, the own properties an object carries beyond its declared type) are
  modelled as JSON-like values. Numbers are integers: the program uses them for
  millisecond timestamps, durations and counters. An object is the list of its own
  properties in insertion order.
\<close>

datatype jsval =
    JUndefined
  | JNull
  | JBool bool
  | JNum int
  | JStr string
  | JArr "jsval list"
  | JObj "(string \<times> jsval) list"

text \<open>\<^verbatim>\<open>String.prototype.toLowerCase\<close> and \<^verbatim>\<open>String.prototype.includes\<close>, on ASCII text.\<close>

definition lower_char :: "char \<Rightarrow> char" where
  "lower_char c =
     (case map_of (zip ''ABCDEFGHIJKLMNOPQRSTUVWXYZ'' ''abcdefghijklmnopqrstuvwxyz'') c of
        Some d \<Rightarrow> d
      | None \<Rightarrow> c)"

definition toLowerCase :: "string \<Rightarrow> string" where
  "toLowerCase s = map lower_char s"

fun str_includes :: "string \<Rightarrow> string \<Rightarrow> bool" where
  "str_includes [] n = (n = [])"
| "str_includes (c # cs) n = (prefix n (c # cs) \<or> str_includes cs n)"

section \<open>Error classifier (lib/session.ts)\<close>

text \<open>
  A caught value is either not an instance of \<^verbatim>\<open>Error\<close>, or an \<^verbatim>\<open>Error\<close> with its
  name, its message and, when the property is present, its numeric \<^verbatim>\<open>statusCode\<close>.
\<close>

datatype thrown =
    NonError
  | ErrorValue string string "int option"

fun is_Error :: "thrown \<Rightarrow> bool" where
  "is_Error NonError = False"
| "is_Error (ErrorValue n m sc) = True"

fun error_name :: "thrown \<Rightarrow> string" where
  "error_name NonError = []"
| "error_name (ErrorValue n m sc) = n"

fun error_message :: "thrown \<Rightarrow> string" where
  "error_message NonError = []"
| "error_message (ErrorValue n m sc) = m"

fun statusCode :: "thrown \<Rightarrow> int option" where
  "statusCode NonError = None"
| "statusCode (ErrorValue n m sc) = sc"

definition MAX_RETRIES :: nat where
  "MAX_RETRIES = 3"

definition RETRY_DELAY_BASE :: int where
  "RETRY_DELAY_BASE = 1000"

definition DEFAULT_SESSION_TIMEOUT :: int where
  "DEFAULT_SESSION_TIMEOUT = 30000"

definition calculateRetryDelay :: "nat \<Rightarrow> int" where
  "calculateRetryDelay attempt = min (RETRY_DELAY_BASE * 2 ^ attempt) 30000"

definition isNetworkError :: "thrown \<Rightarrow> bool" where
  "isNetworkError e =
     (if is_Error e then
        (let message = toLowerCase (error_message e) in
           str_includes message ''eai_again'' \<or>
           str_includes message ''enotfound'' \<or>
           str_includes message ''network'' \<or>
           str_includes message ''dns'' \<or>
           str_includes message ''getaddrinfo'' \<or>
           str_includes message ''fetch failed'' \<or>
           str_includes message ''connection refused'')
      else False)"

definition isRecoverableError :: "thrown \<Rightarrow> bool" where
  "isRecoverableError e =
     (if isNetworkError e then True
      else if is_Error e \<and> statusCode e \<noteq> None then
        (case statusCode e of
           Some sc \<Rightarrow> 500 \<le> sc \<and> sc < 600
         | None \<Rightarrow> False)
      else if is_Error e \<and> str_includes (error_message e) ''rate limit'' then True
      else False)"

section \<open>Session manager (lib/session.ts)\<close>

datatype SessionStatus = Idle | Initializing | Running | Error | Terminated

record SessionStats =
  totalTokens :: int
  turnCount :: int
  startTime :: int
  lastActivityTime :: int

text \<open>
  \<^verbatim>\<open>SessionConfig\<close> declares four keys. TypeScript types are structural, so the object
  passed at run time may own further properties; \<open>otherKeys\<close> holds them, and an object
  spread copies them along.
\<close>

record SessionConfig =
  model :: string
  system :: "string option"
  tools :: "string list option"
  timeout :: "int option"
  otherKeys :: "(string \<times> jsval) list"

record SessionError =
  err_code :: string
  err_message :: string
  recoverable :: bool
  err_timestamp :: int

record Session =
  session_id :: string
  session_name :: string
  status :: SessionStatus
  systemSent :: bool
  interrupted :: bool
  config :: SessionConfig
  stats :: SessionStats
  session_error :: "SessionError option"
  createdAt :: int
  updatedAt :: int

text \<open>
  \<^verbatim>\<open>Partial<Omit<Session, 'id' | 'createdAt'>>\<close>: every key may be absent (\<open>None\<close>).
  A key \<^verbatim>\<open>updatedAt\<close> would be overwritten by the update itself and is left out.
\<close>

record SessionUpdates =
  u_name :: "string option"
  u_status :: "SessionStatus option"
  u_systemSent :: "bool option"
  u_interrupted :: "bool option"
  u_config :: "SessionConfig option"
  u_stats :: "SessionStats option"
  u_error :: "SessionError option"

definition no_updates :: SessionUpdates where
  "no_updates = \<lparr> u_name = None, u_status = None, u_systemSent = None,
     u_interrupted = None, u_config = None, u_stats = None, u_error = None \<rparr>"

text \<open>
  The manager: the \<^verbatim>\<open>sessions\<close> map and the \<^verbatim>\<open>pendingOperations\<close> map, both in
  insertion order as a JavaScript \<^verbatim>\<open>Map\<close> keeps them. The \<^verbatim>\<open>AbortController\<close>
  objects created so far are the positions of \<open>controllers\<close>, each with the
  \<^verbatim>\<open>aborted\<close> flag of its signal. \<open>persisted\<close> is the last snapshot handed to the
  storage collaborator.
\<close>

record SessionManager =
  sessions :: "(string \<times> Session) list"
  pendingOperations :: "(string \<times> nat) list"
  controllers :: "bool list"
  persisted :: "(string \<times> Session) list"

definition new_manager :: SessionManager where
  "new_manager = \<lparr> sessions = [], pendingOperations = [], controllers = [],
     persisted = [] \<rparr>"

text \<open>\<^verbatim>\<open>controller.signal.aborted\<close>\<close>

definition signal_aborted :: "SessionManager \<Rightarrow> nat \<Rightarrow> bool" where
  "signal_aborted m c = (c < length (controllers m) \<and> controllers m ! c)"

definition saveToStorage :: "SessionManager \<Rightarrow> SessionManager" where
  "saveToStorage m = m\<lparr> persisted := sessions m \<rparr>"

text \<open>\<^verbatim>\<open>x || DEFAULT_SESSION_TIMEOUT\<close>: an absent timeout and the number 0 are falsy.\<close>

definition timeout_or_default :: "int option \<Rightarrow> int" where
  "timeout_or_default t =
     (case t of None \<Rightarrow> DEFAULT_SESSION_TIMEOUT
      | Some n \<Rightarrow> if n = 0 then DEFAULT_SESSION_TIMEOUT else n)"

text \<open>Every operation takes the reading of \<^verbatim>\<open>Date.now()\<close> as its first argument.\<close>

definition isZombieSession :: "int \<Rightarrow> Session \<Rightarrow> bool" where
  "isZombieSession now s =
     (let tmo = timeout_or_default (timeout (config s));
          timeSinceActivity = now - lastActivityTime (stats s)
      in systemSent s = True \<and> status s \<noteq> Terminated \<and> status s \<noteq> Error \<and>
         timeSinceActivity > tmo)"

definition createSession ::
  "int \<Rightarrow> string \<Rightarrow> string \<Rightarrow> SessionConfig \<Rightarrow> SessionManager \<Rightarrow> Session \<times> SessionManager" where
  "createSession now i n c m =
     (let session = \<lparr> session_id = i, session_name = n, status = Idle,
            systemSent = False, interrupted = False,
            config = c\<lparr> timeout := Some (timeout_or_default (timeout c)) \<rparr>,
            stats = \<lparr> totalTokens = 0, turnCount = 0, startTime = now,
                      lastActivityTime = now \<rparr>,
            session_error = None, createdAt = now, updatedAt = now \<rparr>
      in (session, saveToStorage (m\<lparr> sessions := AList.update i session (sessions m) \<rparr>)))"

definition getSession :: "string \<Rightarrow> SessionManager \<Rightarrow> Session option" where
  "getSession i m = map_of (sessions m) i"

definition getAllSessions :: "SessionManager \<Rightarrow> Session list" where
  "getAllSessions m = map snd (sessions m)"

definition apply_updates :: "int \<Rightarrow> SessionUpdates \<Rightarrow> Session \<Rightarrow> Session" where
  "apply_updates now u s =
     s\<lparr> session_name := (case u_name u of None \<Rightarrow> session_name s | Some v \<Rightarrow> v),
        status := (case u_status u of None \<Rightarrow> status s | Some v \<Rightarrow> v),
        systemSent := (case u_systemSent u of None \<Rightarrow> systemSent s | Some v \<Rightarrow> v),
        interrupted := (case u_interrupted u of None \<Rightarrow> interrupted s | Some v \<Rightarrow> v),
        config := (case u_config u of None \<Rightarrow> config s | Some v \<Rightarrow> v),
        session_error := (case u_error u of None \<Rightarrow> session_error s | Some v \<Rightarrow> Some v),
        updatedAt := now,
        stats := (case u_stats u of None \<Rightarrow> stats s | Some v \<Rightarrow> v)
                   \<lparr> lastActivityTime := now \<rparr> \<rparr>"

definition updateSession ::
  "int \<Rightarrow> string \<Rightarrow> SessionUpdates \<Rightarrow> SessionManager \<Rightarrow> Session option \<times> SessionManager" where
  "updateSession now i u m =
     (case map_of (sessions m) i of
        None \<Rightarrow> (None, m)
      | Some session \<Rightarrow>
          (let updatedSession = apply_updates now u session
           in (Some updatedSession,
               saveToStorage (m\<lparr> sessions := AList.update i updatedSession (sessions m) \<rparr>))))"

definition markSystemSent ::
  "int \<Rightarrow> string \<Rightarrow> SessionManager \<Rightarrow> Session option \<times> SessionManager" where
  "markSystemSent now i m =
     (case map_of (sessions m) i of
        None \<Rightarrow> (None, m)
      | Some session \<Rightarrow>
          if status session \<noteq> Running then (None, m)
          else updateSession now i (no_updates\<lparr> u_systemSent := Some True \<rparr>) m)"

definition startSession ::
  "int \<Rightarrow> string \<Rightarrow> SessionManager \<Rightarrow> Session option \<times> SessionManager" where
  "startSession now i m =
     updateSession now i (no_updates\<lparr> u_status := Some Running, u_systemSent := Some False \<rparr>) m"

definition cancelPendingOperations :: "string \<Rightarrow> SessionManager \<Rightarrow> SessionManager" where
  "cancelPendingOperations i m =
     (case map_of (pendingOperations m) i of
        None \<Rightarrow> m
      | Some controller \<Rightarrow>
          m\<lparr> controllers := (controllers m)[controller := True],
             pendingOperations := AList.delete i (pendingOperations m) \<rparr>)"

definition registerOperation :: "string \<Rightarrow> SessionManager \<Rightarrow> nat \<times> SessionManager" where
  "registerOperation i m =
     (let m1 = cancelPendingOperations i m;
          controller = length (controllers m1)
      in (controller,
          m1\<lparr> pendingOperations := AList.update i controller (pendingOperations m1),
              controllers := controllers m1 @ [False] \<rparr>))"

definition errorSession ::
  "int \<Rightarrow> string \<Rightarrow> string \<times> string \<times> bool \<Rightarrow> SessionManager \<Rightarrow>
     Session option \<times> SessionManager" where
  "errorSession now i e m =
     (case e of (c, msg, r) \<Rightarrow>
        updateSession now i
          (no_updates\<lparr> u_status := Some Error, u_systemSent := Some False,
             u_error := Some \<lparr> err_code = c, err_message = msg, recoverable = r,
                               err_timestamp = now \<rparr> \<rparr>)
          (cancelPendingOperations i m))"

definition terminateSession ::
  "int \<Rightarrow> string \<Rightarrow> SessionManager \<Rightarrow> Session option \<times> SessionManager" where
  "terminateSession now i m =
     updateSession now i
       (no_updates\<lparr> u_status := Some Terminated, u_systemSent := Some False,
          u_interrupted := Some True \<rparr>)
       (cancelPendingOperations i m)"

definition deleteSession :: "string \<Rightarrow> SessionManager \<Rightarrow> bool \<times> SessionManager" where
  "deleteSession i m =
     (let m1 = cancelPendingOperations i m
      in case map_of (sessions m1) i of
           None \<Rightarrow> (False, m1)
         | Some s \<Rightarrow> (True, saveToStorage (m1\<lparr> sessions := AList.delete i (sessions m1) \<rparr>)))"

text \<open>
  The loop of \<^verbatim>\<open>cleanupZombieSessions\<close> walks the map's keys in order and reads each
  entry from the live map, as the \<^verbatim>\<open>Map\<close> iterator does.
\<close>

fun cleanup_loop :: "int \<Rightarrow> string list \<Rightarrow> nat \<times> SessionManager \<Rightarrow> nat \<times> SessionManager" where
  "cleanup_loop now [] (cleaned, m) = (cleaned, m)"
| "cleanup_loop now (i # ids) (cleaned, m) =
     (case map_of (sessions m) i of
        None \<Rightarrow> cleanup_loop now ids (cleaned, m)
      | Some session \<Rightarrow>
          if isZombieSession now session
          then cleanup_loop now ids (Suc cleaned, snd (terminateSession now i m))
          else cleanup_loop now ids (cleaned, m))"

definition cleanupZombieSessions :: "int \<Rightarrow> SessionManager \<Rightarrow> nat \<times> SessionManager" where
  "cleanupZombieSessions now m = cleanup_loop now (map fst (sessions m)) (0, m)"

definition updateStats ::
  "int \<Rightarrow> string \<Rightarrow> int \<Rightarrow> bool \<Rightarrow> SessionManager \<Rightarrow> Session option \<times> SessionManager" where
  "updateStats now i tokensDelta incrementTurn m =
     (case map_of (sessions m) i of
        None \<Rightarrow> (None, m)
      | Some session \<Rightarrow>
          updateSession now i
            (no_updates\<lparr> u_stats := Some ((stats session)
               \<lparr> totalTokens := totalTokens (stats session) + tokensDelta,
                 turnCount := (if incrementTurn then turnCount (stats session) + 1
                               else turnCount (stats session)) \<rparr>) \<rparr>)
            m)"

text \<open>
  The states the manager can be in: a fresh manager over empty storage, and every state
  that one of its operations gives from such a state. \<^verbatim>\<open>updateSession\<close> with a partial
  record chosen by the caller is not among them.
\<close>

inductive reachable :: "SessionManager \<Rightarrow> bool" where
  reach_new: "reachable new_manager"
| reach_create: "reachable m \<Longrightarrow> reachable (snd (createSession now i n c m))"
| reach_start: "reachable m \<Longrightarrow> reachable (snd (startSession now i m))"
| reach_mark: "reachable m \<Longrightarrow> reachable (snd (markSystemSent now i m))"
| reach_error: "reachable m \<Longrightarrow> reachable (snd (errorSession now i e m))"
| reach_terminate: "reachable m \<Longrightarrow> reachable (snd (terminateSession now i m))"
| reach_cleanup: "reachable m \<Longrightarrow> reachable (snd (cleanupZombieSessions now m))"
| reach_delete: "reachable m \<Longrightarrow> reachable (snd (deleteSession i m))"
| reach_register: "reachable m \<Longrightarrow> reachable (snd (registerOperation i m))"
| reach_cancel: "reachable m \<Longrightarrow> reachable (cancelPendingOperations i m)"
| reach_stats: "reachable m \<Longrightarrow> reachable (snd (updateStats now i d t m))"

definition flag_ok :: "Session \<Rightarrow> bool" where
  "flag_ok s = (systemSent s \<longrightarrow> status s = Running)"

definition flags_ok :: "SessionManager \<Rightarrow> bool" where
  "flags_ok m = (\<forall>(i, s) \<in> set (sessions m). flag_ok s)"

subsection \<open>The session configuration schema (lib/config-schema.ts)\<close>

text \<open>
  \<^verbatim>\<open>sessionConfigSchema\<close> is a strict object schema: \<^verbatim>\<open>model\<close> a string of length at
  least 1, \<^verbatim>\<open>system\<close> an optional string, \<^verbatim>\<open>tools\<close> an optional array of strings,
  \<^verbatim>\<open>timeout\<close> an optional positive number, and no other key.
  \<^verbatim>\<open>validateSessionConfig\<close> reports whether the parse succeeds.
\<close>

definition sessionConfigKeys :: "string list" where
  "sessionConfigKeys = [''model'', ''system'', ''tools'', ''timeout'']"

fun is_JStr :: "jsval \<Rightarrow> bool" where
  "is_JStr (JStr s) = True"
| "is_JStr v = False"

fun optional_string :: "jsval option \<Rightarrow> bool" where
  "optional_string None = True"
| "optional_string (Some JUndefined) = True"
| "optional_string (Some (JStr s)) = True"
| "optional_string (Some v) = False"

fun optional_string_array :: "jsval option \<Rightarrow> bool" where
  "optional_string_array None = True"
| "optional_string_array (Some JUndefined) = True"
| "optional_string_array (Some (JArr xs)) = list_all is_JStr xs"
| "optional_string_array (Some v) = False"

fun optional_positive :: "jsval option \<Rightarrow> bool" where
  "optional_positive None = True"
| "optional_positive (Some JUndefined) = True"
| "optional_positive (Some (JNum n)) = (0 < n)"
| "optional_positive (Some v) = False"

fun nonempty_string :: "jsval option \<Rightarrow> bool" where
  "nonempty_string (Some (JStr s)) = (1 \<le> length s)"
| "nonempty_string v = False"

fun validateSessionConfig :: "jsval \<Rightarrow> bool" where
  "validateSessionConfig (JObj ps) =
     (nonempty_string (map_of ps ''model'') \<and>
      optional_string (map_of ps ''system'') \<and>
      optional_string_array (map_of ps ''tools'') \<and>
      optional_positive (map_of ps ''timeout'') \<and>
      list_all (\<lambda>k. k \<in> set sessionConfigKeys) (map fst ps))"
| "validateSessionConfig v = False"

text \<open>The object a typed configuration is at run time: its declared keys, then the others.\<close>

definition config_object :: "SessionConfig \<Rightarrow> jsval" where
  "config_object c =
     JObj ([(''model'', JStr (model c))] @
           (case system c of None \<Rightarrow> [] | Some s \<Rightarrow> [(''system'', JStr s)]) @
           (case tools c of None \<Rightarrow> [] | Some ts \<Rightarrow> [(''tools'', JArr (map JStr ts))]) @
           (case timeout c of None \<Rightarrow> [] | Some t \<Rightarrow> [(''timeout'', JNum t)]) @
           otherKeys c)"

definition config_keys :: "SessionConfig \<Rightarrow> string set" where
  "config_keys c = (case config_object c of JObj ps \<Rightarrow> set (map fst ps) | _ \<Rightarrow> {})"

subsection \<open>Sample inputs\<close>

definition test_config :: SessionConfig where
  "test_config = \<lparr> model = ''test-model'', system = None, tools = None, timeout = None,
     otherKeys = [] \<rparr>"

definition drifted_config :: SessionConfig where
  "drifted_config = \<lparr> model = ''test-model'', system = None, tools = None, timeout = None,
     otherKeys = [(''temperature'', JNum 1)] \<rparr>"

definition m_created :: SessionManager where
  "m_created = snd (createSession 1000 ''test-1'' ''Test'' test_config new_manager)"

definition m_running :: SessionManager where
  "m_running = snd (startSession 1001 ''test-1'' m_created)"

definition m_sent :: SessionManager where
  "m_sent = snd (markSystemSent 1002 ''test-1'' m_running)"

definition m_terminated :: SessionManager where
  "m_terminated = snd (terminateSession 1003 ''test-1'' m_sent)"

section \<open>Loading sessions from storage (lib/session.ts)\<close>

text \<open>
  What storage returns is unchecked: \<^verbatim>\<open>loadFromStorage\<close> casts it to a record of
  sessions and \<^verbatim>\<open>validateSession\<close> takes an \<^verbatim>\<open>unknown\<close>. The load path is therefore
  modelled on \<open>jsval\<close>, with the exception a property read of \<^verbatim>\<open>null\<close> or
  \<^verbatim>\<open>undefined\<close> raises.
\<close>

datatype js_exn = TypeError | StorageError

fun truthy :: "jsval \<Rightarrow> bool" where
  "truthy JUndefined = False"
| "truthy JNull = False"
| "truthy (JBool b) = b"
| "truthy (JNum n) = (n \<noteq> 0)"
| "truthy (JStr s) = (s \<noteq> [])"
| "truthy (JArr xs) = True"
| "truthy (JObj ps) = True"

text \<open>\<^verbatim>\<open>typeof v === 'object'\<close> holds of \<^verbatim>\<open>null\<close>, of arrays and of objects.\<close>

fun typeof_object :: "jsval \<Rightarrow> bool" where
  "typeof_object JNull = True"
| "typeof_object (JArr xs) = True"
| "typeof_object (JObj ps) = True"
| "typeof_object v = False"

fun is_JBool :: "jsval \<Rightarrow> bool" where
  "is_JBool (JBool b) = True"
| "is_JBool v = False"

text \<open>
  Reading a named property. The names the program reads (\<^verbatim>\<open>config\<close>, \<^verbatim>\<open>stats\<close>,
  \<^verbatim>\<open>timeout\<close>, ...) are neither indices nor \<^verbatim>\<open>length\<close>, so arrays and primitive
  values answer \<^verbatim>\<open>undefined\<close>.
\<close>

fun own_prop :: "jsval \<Rightarrow> string \<Rightarrow> jsval" where
  "own_prop (JObj ps) k = (case map_of ps k of None \<Rightarrow> JUndefined | Some v \<Rightarrow> v)"
| "own_prop v k = JUndefined"

definition get_prop :: "jsval \<Rightarrow> string \<Rightarrow> js_exn + jsval" where
  "get_prop v k = (if v = JUndefined \<or> v = JNull then Inl TypeError else Inr (own_prop v k))"

text \<open>Decimal digits of an index, for the keys of arrays and strings.\<close>

definition digit_char :: "nat \<Rightarrow> char" where
  "digit_char d = ''0123456789'' ! d"

function show_nat :: "nat \<Rightarrow> string" where
  "show_nat n = (if n < 10 then [digit_char n] else show_nat (n div 10) @ [digit_char (n mod 10)])"
  by pat_completeness auto
termination
  by (relation "measure (\<lambda>n. n)") auto

declare show_nat.simps [simp del]

definition index_keys :: "nat \<Rightarrow> string list" where
  "index_keys n = map show_nat [0..<n]"

fun object_keys :: "jsval \<Rightarrow> string list" where
  "object_keys (JObj ps) = map fst ps"
| "object_keys (JArr xs) = index_keys (length xs)"
| "object_keys (JStr s) = index_keys (length s)"
| "object_keys v = []"

fun object_entries :: "jsval \<Rightarrow> js_exn + (string \<times> jsval) list" where
  "object_entries JUndefined = Inl TypeError"
| "object_entries JNull = Inl TypeError"
| "object_entries (JObj ps) = Inr ps"
| "object_entries (JArr xs) = Inr (zip (index_keys (length xs)) xs)"
| "object_entries (JStr s) = Inr (zip (index_keys (length s)) (map (\<lambda>c. JStr [c]) s))"
| "object_entries v = Inr []"

text \<open>
  \<^verbatim>\<open>ToNumber\<close>, with \<open>None\<close> for \<^verbatim>\<open>NaN\<close>. The numeric value of a string, an array or
  an object is left to the parameter \<open>coerce\<close>.
\<close>

fun to_number :: "(jsval \<Rightarrow> int option) \<Rightarrow> jsval \<Rightarrow> int option" where
  "to_number coerce JUndefined = None"
| "to_number coerce JNull = Some 0"
| "to_number coerce (JBool b) = Some (if b then 1 else 0)"
| "to_number coerce (JNum n) = Some n"
| "to_number coerce v = coerce v"

text \<open>\<^verbatim>\<open>a > b\<close> for a number \<open>a\<close>: numeric, and false when either side is \<^verbatim>\<open>NaN\<close>.\<close>

fun js_greater :: "int option \<Rightarrow> int option \<Rightarrow> bool" where
  "js_greater (Some a) (Some b) = (a > b)"
| "js_greater a b = False"

text \<open>
  \<^verbatim>\<open>isZombieSession\<close> as it runs on an unchecked record: the two constants are
  computed first, and either read may raise.
\<close>

definition isZombieSession_raw ::
  "(jsval \<Rightarrow> int option) \<Rightarrow> int \<Rightarrow> jsval \<Rightarrow> js_exn + bool" where
  "isZombieSession_raw coerce now session =
     (case get_prop session ''config'' of
        Inl e \<Rightarrow> Inl e
      | Inr cfg \<Rightarrow>
     (case get_prop cfg ''timeout'' of
        Inl e \<Rightarrow> Inl e
      | Inr t \<Rightarrow>
     (let tmo = (if truthy t then t else JNum DEFAULT_SESSION_TIMEOUT) in
     (case get_prop session ''stats'' of
        Inl e \<Rightarrow> Inl e
      | Inr st \<Rightarrow>
     (case get_prop st ''lastActivityTime'' of
        Inl e \<Rightarrow> Inl e
      | Inr la \<Rightarrow>
     (let timeSinceActivity = map_option (\<lambda>n. now - n) (to_number coerce la) in
        Inr (own_prop session ''systemSent'' = JBool True \<and>
             own_prop session ''status'' \<noteq> JStr ''terminated'' \<and>
             own_prop session ''status'' \<noteq> JStr ''error'' \<and>
             js_greater timeSinceActivity (to_number coerce tmo))))))))"

definition allowedConfigKeys :: "string list" where
  "allowedConfigKeys = [''model'', ''system'', ''tools'', ''timeout'']"

definition validateSession :: "jsval \<Rightarrow> bool" where
  "validateSession session =
     (if \<not> truthy session \<or> \<not> typeof_object session then False
      else if \<not> is_JStr (own_prop session ''id'') then False
      else if \<not> is_JStr (own_prop session ''name'') then False
      else if \<not> is_JBool (own_prop session ''systemSent'') then False
      else if \<not> is_JBool (own_prop session ''interrupted'') then False
      else
        (let cfg = own_prop session ''config'' in
         if \<not> truthy cfg \<or> \<not> typeof_object cfg then False
         else if \<not> is_JStr (own_prop cfg ''model'') then False
         else if \<not> list_all (\<lambda>key. key \<in> set allowedConfigKeys) (object_keys cfg) then False
         else
           (let st = own_prop session ''stats'' in
            if \<not> truthy st \<or> \<not> typeof_object st then False
            else True)))"

text \<open>
  The loop of \<^verbatim>\<open>loadFromStorage\<close> over the stored entries; \<open>acc\<close> is the
  \<^verbatim>\<open>sessions\<close> map being filled. An exception leaves the loop.
\<close>

fun load_entries ::
  "(jsval \<Rightarrow> int option) \<Rightarrow> int \<Rightarrow> (string \<times> jsval) list \<Rightarrow> (string \<times> jsval) list \<Rightarrow>
     js_exn + (string \<times> jsval) list" where
  "load_entries coerce now [] acc = Inr acc"
| "load_entries coerce now ((i, session) # es) acc =
     (case isZombieSession_raw coerce now session of
        Inl e \<Rightarrow> Inl e
      | Inr True \<Rightarrow> load_entries coerce now es acc
      | Inr False \<Rightarrow>
          if validateSession session
          then load_entries coerce now es (AList.update i session acc)
          else load_entries coerce now es acc)"

text \<open>
  The body of the \<^verbatim>\<open>try\<close>. \<open>stored\<close> is what \<^verbatim>\<open>getFromStorage\<close> (in utils, not
  part of the sources at hand) gives: a value, or an exception. The constructor calls
  \<^verbatim>\<open>loadFromStorage\<close> on the empty map.
\<close>

definition load_try ::
  "(jsval \<Rightarrow> int option) \<Rightarrow> int \<Rightarrow> js_exn + jsval \<Rightarrow> js_exn + (string \<times> jsval) list" where
  "load_try coerce now stored =
     (case stored of
        Inl e \<Rightarrow> Inl e
      | Inr v \<Rightarrow>
          (case object_entries v of
             Inl e \<Rightarrow> Inl e
           | Inr es \<Rightarrow> load_entries coerce now es []))"

text \<open>The \<^verbatim>\<open>catch\<close> clears the map.\<close>

definition loadFromStorage ::
  "(jsval \<Rightarrow> int option) \<Rightarrow> int \<Rightarrow> js_exn + jsval \<Rightarrow> (string \<times> jsval) list" where
  "loadFromStorage coerce now stored =
     (case load_try coerce now stored of
        Inl e \<Rightarrow> []
      | Inr m \<Rightarrow> m)"

text \<open>A record passes the load when it is no zombie and its schema is valid.\<close>

definition loadable :: "(jsval \<Rightarrow> int option) \<Rightarrow> int \<Rightarrow> jsval \<Rightarrow> bool" where
  "loadable coerce now session =
     (isZombieSession_raw coerce now session = Inr False \<and> validateSession session)"

definition has_unknown_config_key :: "jsval \<Rightarrow> bool" where
  "has_unknown_config_key session =
     (\<exists>key \<in> set (object_keys (own_prop session ''config'')). key \<notin> set allowedConfigKeys)"

subsection \<open>A typed session as the stored value\<close>

fun status_string :: "SessionStatus \<Rightarrow> string" where
  "status_string Idle = ''idle''"
| "status_string Initializing = ''initializing''"
| "status_string Running = ''running''"
| "status_string Error = ''error''"
| "status_string Terminated = ''terminated''"

definition stats_object :: "SessionStats \<Rightarrow> jsval" where
  "stats_object st =
     JObj [(''totalTokens'', JNum (totalTokens st)), (''turnCount'', JNum (turnCount st)),
           (''startTime'', JNum (startTime st)),
           (''lastActivityTime'', JNum (lastActivityTime st))]"

definition error_object :: "SessionError \<Rightarrow> jsval" where
  "error_object e =
     JObj [(''code'', JStr (err_code e)), (''message'', JStr (err_message e)),
           (''recoverable'', JBool (recoverable e)), (''timestamp'', JNum (err_timestamp e))]"

definition session_object :: "Session \<Rightarrow> jsval" where
  "session_object s =
     JObj ([(''id'', JStr (session_id s)), (''name'', JStr (session_name s)),
            (''status'', JStr (status_string (status s))),
            (''systemSent'', JBool (systemSent s)),
            (''interrupted'', JBool (interrupted s)),
            (''config'', config_object (config s)),
            (''stats'', stats_object (stats s))] @
           (case session_error s of None \<Rightarrow> [] | Some e \<Rightarrow> [(''error'', error_object e)]) @
           [(''createdAt'', JNum (createdAt s)), (''updatedAt'', JNum (updatedAt s))])"

subsection \<open>Sample stored records\<close>

definition no_coercion :: "jsval \<Rightarrow> int option" where
  "no_coercion v = None"

definition stored_config :: jsval where
  "stored_config = JObj [(''model'', JStr ''test-model''), (''timeout'', JNum 100)]"

definition stored_stats :: "int \<Rightarrow> jsval" where
  "stored_stats la = JObj [(''totalTokens'', JNum 0), (''turnCount'', JNum 0),
     (''startTime'', JNum 1000), (''lastActivityTime'', JNum la)]"

definition stored_session :: "string \<Rightarrow> bool \<Rightarrow> jsval \<Rightarrow> int \<Rightarrow> jsval" where
  "stored_session i sent cfg la =
     JObj [(''id'', JStr i), (''name'', JStr ''Test''), (''status'', JStr ''running''),
           (''systemSent'', JBool sent), (''interrupted'', JBool False),
           (''config'', cfg), (''stats'', stored_stats la),
           (''createdAt'', JNum 1000), (''updatedAt'', JNum 1000)]"

definition drifted_stored_config :: jsval where
  "drifted_stored_config =
     JObj [(''model'', JStr ''test-model''), (''temperature'', JNum 1)]"

definition stored_blob :: jsval where
  "stored_blob =
     JObj [(''live'', stored_session ''live'' True stored_config 1950),
           (''zombie'', stored_session ''zombie'' True stored_config 1000),
           (''drifted'', stored_session ''drifted'' False drifted_stored_config 1950)]"

section \<open>Skill verifier (lib/skill-verification.ts)\<close>

definition SKILL_VERIFICATION_TIMEOUT :: int where
  "SKILL_VERIFICATION_TIMEOUT = 5000"

datatype SkillStatus = Unverified | Verifying | Verified | Failed | Disabled

record SkillError =
  code :: string
  message :: string
  isNetworkError_flag :: bool
  timestamp :: int

record Skill =
  skill_id :: string
  skill_name :: string
  displayName :: string
  skill_status :: SkillStatus
  verificationUrl :: "string option"
  lastVerified :: "int option"
  skill_error :: "SkillError option"
  retryCount :: nat

text \<open>
  The \<open>result_skill\<close> of a result is the registry's entry when the result was made
  (\<open>None\<close> where \<^verbatim>\<open>this.skills.get\<close> would answer \<^verbatim>\<open>undefined\<close>).
\<close>

record SkillVerificationResult =
  success :: bool
  result_skill :: "Skill option"
  result_error :: "SkillError option"

text \<open>
  How a network call ends: a response with its \<^verbatim>\<open>ok\<close> flag and status, or a
  rejection with the value thrown (\<^verbatim>\<open>AbortError\<close> when the timeout of
  \<^verbatim>\<open>fetchWithTimeout\<close> fires).
\<close>

datatype fetch_outcome = Response bool int | Rejected thrown

text \<open>
  \<^verbatim>\<open>performVerification\<close> is an async function: it runs until it waits for the
  network call or for the backoff timer, and goes on when that wait ends. A \<open>Task\<close>
  is such a suspended call: its arguments, its local variables and what it waits for.
\<close>

datatype phase = Fetching | Sleeping int

record Task =
  t_skill_id :: string
  t_skill_name :: string
  t_url :: string
  t_sessionId :: "string option"
  t_timeout :: int
  t_controller :: "nat option"
  t_lastError :: "SkillError option"
  t_attempt :: nat
  t_phase :: phase

text \<open>
  The verifier with the session manager it calls (the module's singleton):
  the \<^verbatim>\<open>skills\<close> and \<^verbatim>\<open>verificationPromises\<close> maps, the promises that
  \<^verbatim>\<open>performVerification\<close> has returned so far (a promise is its position in
  \<open>promises\<close>: pending with its suspended task, or resolved with its value), and the
  log of the network calls issued (promise and URL).
\<close>

record Verifier =
  skills :: "(string \<times> Skill) list"
  verificationPromises :: "(string \<times> nat) list"
  promises :: "(Task + SkillVerificationResult) list"
  network_calls :: "(nat \<times> string) list"
  manager :: SessionManager

definition new_verifier :: Verifier where
  "new_verifier = \<lparr> skills = [], verificationPromises = [], promises = [],
     network_calls = [], manager = new_manager \<rparr>"

definition task_of :: "Verifier \<Rightarrow> nat \<Rightarrow> Task option" where
  "task_of w p =
     (if p < length (promises w)
      then (case promises w ! p of Inl task \<Rightarrow> Some task | Inr r \<Rightarrow> None)
      else None)"

definition result_of :: "Verifier \<Rightarrow> nat \<Rightarrow> SkillVerificationResult option" where
  "result_of w p =
     (if p < length (promises w)
      then (case promises w ! p of Inl task \<Rightarrow> None | Inr r \<Rightarrow> Some r)
      else None)"

definition suspend :: "nat \<Rightarrow> Task \<Rightarrow> Verifier \<Rightarrow> Verifier" where
  "suspend p task w = w\<lparr> promises := (promises w)[p := Inl task] \<rparr>"

text \<open>What a caller of \<^verbatim>\<open>verifySkill\<close> holds: a value, or a promise still pending.\<close>

datatype dispatch = Resolved SkillVerificationResult | Pending nat

definition registerSkill ::
  "string \<Rightarrow> string \<Rightarrow> string \<Rightarrow> string option \<Rightarrow> Verifier \<Rightarrow> Skill \<times> Verifier" where
  "registerSkill i n d url w =
     (let skill = \<lparr> skill_id = i, skill_name = n, displayName = d,
            skill_status = Unverified, verificationUrl = url, lastVerified = None,
            skill_error = None, retryCount = 0 \<rparr>
      in (skill, w\<lparr> skills := AList.update i skill (skills w) \<rparr>))"

definition getSkill :: "string \<Rightarrow> Verifier \<Rightarrow> Skill option" where
  "getSkill i w = map_of (skills w) i"

definition getAllSkills :: "Verifier \<Rightarrow> Skill list" where
  "getAllSkills w = map snd (skills w)"

definition updateSkillStatus ::
  "string \<Rightarrow> SkillStatus \<Rightarrow> SkillError option \<Rightarrow> Verifier \<Rightarrow> Verifier" where
  "updateSkillStatus i st err w =
     (case map_of (skills w) i of
        None \<Rightarrow> w
      | Some skill \<Rightarrow>
          w\<lparr> skills := AList.update i (skill\<lparr> skill_status := st, skill_error := err \<rparr>)
                          (skills w) \<rparr>)"

text \<open>
  An assignment \<^verbatim>\<open>this.skills.get(id)!.field = v\<close>. An id once registered stays
  registered, so the entry is there when a task of that skill runs.
\<close>

definition modify_skill :: "string \<Rightarrow> (Skill \<Rightarrow> Skill) \<Rightarrow> Verifier \<Rightarrow> Verifier" where
  "modify_skill i f w =
     (case map_of (skills w) i of
        None \<Rightarrow> w
      | Some skill \<Rightarrow> w\<lparr> skills := AList.update i (f skill) (skills w) \<rparr>)"

text \<open>\<^verbatim>\<open>!skill.verificationUrl\<close> and \<^verbatim>\<open>if (sessionId)\<close>: the empty string is falsy.\<close>

definition has_url :: "Skill \<Rightarrow> bool" where
  "has_url skill = (case verificationUrl skill of None \<Rightarrow> False | Some u \<Rightarrow> u \<noteq> [])"

definition has_session :: "string option \<Rightarrow> bool" where
  "has_session sessionId = (case sessionId of None \<Rightarrow> False | Some s \<Rightarrow> s \<noteq> [])"

text \<open>\<^verbatim>\<open>abortController?.signal.aborted\<close>\<close>

definition token_fired :: "Verifier \<Rightarrow> nat option \<Rightarrow> bool" where
  "token_fired w c = (case c of None \<Rightarrow> False | Some k \<Rightarrow> signal_aborted (manager w) k)"

text \<open>A task returns: its promise resolves with the result.\<close>

definition resolve_task :: "nat \<Rightarrow> SkillVerificationResult \<Rightarrow> Verifier \<Rightarrow> Verifier" where
  "resolve_task p r w = w\<lparr> promises := (promises w)[p := Inr r] \<rparr>"

text \<open>The branch of the \<^verbatim>\<open>catch\<close> that handles an abort.\<close>

definition cancelled :: "int \<Rightarrow> nat \<Rightarrow> Task \<Rightarrow> Verifier \<Rightarrow> Verifier" where
  "cancelled now p task w =
     (let cancelError = \<lparr> code = ''VERIFICATION_CANCELLED'',
            message = ''Skill verification was cancelled'',
            isNetworkError_flag = False, timestamp = now \<rparr>;
          w1 = updateSkillStatus (t_skill_id task) Failed (Some cancelError) w
      in resolve_task p
           \<lparr> success = False, result_skill = map_of (skills w1) (t_skill_id task),
             result_error = Some cancelError \<rparr> w1)"

text \<open>The code after the loop: the verification has failed.\<close>

definition verification_failed :: "int \<Rightarrow> nat \<Rightarrow> Task \<Rightarrow> Verifier \<Rightarrow> Verifier" where
  "verification_failed now p task w =
     (let w1 = updateSkillStatus (t_skill_id task) Failed (t_lastError task) w;
          w2 = (case t_lastError task of
                  None \<Rightarrow> w1
                | Some lastError \<Rightarrow>
                    (case t_sessionId task of
                       None \<Rightarrow> w1
                     | Some sessionId \<Rightarrow>
                         if sessionId = [] then w1
                         else w1\<lparr> manager := snd (errorSession now sessionId
                                (code lastError,
                                 ''Skill verification failed for '' @ t_skill_name task @
                                   '': '' @ message lastError,
                                 isRecoverableError (ErrorValue ''Error'' (message lastError) None))
                                (manager w1)) \<rparr>))
      in resolve_task p
           \<lparr> success = False, result_skill = map_of (skills w2) (t_skill_id task),
             result_error = t_lastError task \<rparr> w2)"

text \<open>
  The head of the \<^verbatim>\<open>while\<close> loop up to the network call: the token is polled, and
  when it has not fired the call is issued and the task waits for it.
\<close>

definition loop_head :: "int \<Rightarrow> nat \<Rightarrow> Task \<Rightarrow> Verifier \<Rightarrow> Verifier" where
  "loop_head now p task w =
     (if t_attempt task \<le> MAX_RETRIES then
        (if token_fired w (t_controller task) then cancelled now p task w
         else suspend p (task\<lparr> t_phase := Fetching \<rparr>)
                (w\<lparr> network_calls := network_calls w @ [(p, t_url task)] \<rparr>))
      else verification_failed now p task w)"

text \<open>The response was \<^verbatim>\<open>ok\<close>: the only place that calls \<^verbatim>\<open>markSystemSent\<close>.\<close>

definition verification_succeeded :: "int \<Rightarrow> nat \<Rightarrow> Task \<Rightarrow> Verifier \<Rightarrow> Verifier" where
  "verification_succeeded now p task w =
     (let w1 = updateSkillStatus (t_skill_id task) Verified None w;
          w2 = modify_skill (t_skill_id task) (\<lambda>s. s\<lparr> lastVerified := Some now \<rparr>) w1;
          w3 = modify_skill (t_skill_id task) (\<lambda>s. s\<lparr> retryCount := 0 \<rparr>) w2;
          w4 = (case t_sessionId task of
                  None \<Rightarrow> w3
                | Some sessionId \<Rightarrow>
                    if sessionId = [] then w3
                    else w3\<lparr> manager := snd (markSystemSent now sessionId (manager w3)) \<rparr>)
      in resolve_task p
           \<lparr> success = True, result_skill = map_of (skills w4) (t_skill_id task),
             result_error = None \<rparr> w4)"

text \<open>The \<^verbatim>\<open>catch\<close> of the loop body, for the value \<open>err\<close> thrown.\<close>

definition on_error :: "int \<Rightarrow> nat \<Rightarrow> Task \<Rightarrow> thrown \<Rightarrow> Verifier \<Rightarrow> Verifier" where
  "on_error now p task err w =
     (if error_name err = ''AbortError'' \<or> error_message err = ''Operation cancelled''
      then cancelled now p task w
      else
        (let lastError = \<lparr> code = (if isNetworkError err then ''NETWORK_ERROR''
                                     else ''VERIFICATION_ERROR''),
               message = (if error_message err = [] then ''Unknown verification error''
                          else error_message err),
               isNetworkError_flag = isNetworkError err, timestamp = now \<rparr>;
             task1 = task\<lparr> t_lastError := Some lastError \<rparr>
         in if isRecoverableError err \<and> t_attempt task < MAX_RETRIES then
              (let attempt = t_attempt task + 1;
                   w1 = modify_skill (t_skill_id task) (\<lambda>s. s\<lparr> retryCount := attempt \<rparr>) w
               in suspend p
                    (task1\<lparr> t_attempt := attempt,
                            t_phase := Sleeping (calculateRetryDelay attempt) \<rparr>) w1)
            else verification_failed now p task1 w))"

definition show_int :: "int \<Rightarrow> string" where
  "show_int n = (if n < 0 then ''-'' @ show_nat (nat (- n)) else show_nat (nat n))"

text \<open>
  The \<^verbatim>\<open>finally\<close> of the \<^verbatim>\<open>verifySkill\<close> call that started the verification: it runs
  once the promise has resolved.
\<close>

definition finally_delete :: "nat \<Rightarrow> string \<Rightarrow> Verifier \<Rightarrow> Verifier" where
  "finally_delete p i w =
     (if result_of w p \<noteq> None
      then w\<lparr> verificationPromises := AList.delete i (verificationPromises w) \<rparr>
      else w)"

text \<open>Event: the network call of the task under promise \<open>p\<close> ends with \<open>outcome\<close>.\<close>

definition fetch_settled :: "int \<Rightarrow> nat \<Rightarrow> fetch_outcome \<Rightarrow> Verifier \<Rightarrow> Verifier" where
  "fetch_settled now p outcome w =
     (case task_of w p of
        None \<Rightarrow> w
      | Some task \<Rightarrow>
          if t_phase task \<noteq> Fetching then w
          else finally_delete p (t_skill_id task)
            (case outcome of
               Response ok st \<Rightarrow>
                 if ok then verification_succeeded now p task w
                 else on_error now p task
                   (ErrorValue ''Error'' (''Verification failed with status '' @ show_int st)
                      None) w
             | Rejected err \<Rightarrow> on_error now p task err w))"

text \<open>Event: the backoff timer of the task under promise \<open>p\<close> fires.\<close>

definition timer_fired :: "int \<Rightarrow> nat \<Rightarrow> Verifier \<Rightarrow> Verifier" where
  "timer_fired now p w =
     (case task_of w p of
        None \<Rightarrow> w
      | Some task \<Rightarrow>
          (case t_phase task of
             Fetching \<Rightarrow> w
           | Sleeping d \<Rightarrow> finally_delete p (t_skill_id task) (loop_head now p task w)))"

text \<open>
  The call of \<^verbatim>\<open>performVerification\<close>, up to its first wait: the new promise and the
  state it leaves.
\<close>

definition performVerification ::
  "int \<Rightarrow> Skill \<Rightarrow> string option \<Rightarrow> int \<Rightarrow> Verifier \<Rightarrow> nat \<times> Verifier" where
  "performVerification now skill sessionId tmo w =
     (let w1 = updateSkillStatus (skill_id skill) Verifying None w;
          reg = (if has_session sessionId
                 then (case registerOperation (case sessionId of Some s \<Rightarrow> s | None \<Rightarrow> [])
                              (manager w1) of
                         (c, m) \<Rightarrow> (Some c, w1\<lparr> manager := m \<rparr>))
                 else (None, w1));
          p = length (promises (snd reg));
          task = \<lparr> t_skill_id = skill_id skill, t_skill_name = skill_name skill,
                   t_url = (case verificationUrl skill of Some u \<Rightarrow> u | None \<Rightarrow> []),
                   t_sessionId = sessionId, t_timeout = tmo, t_controller = fst reg,
                   t_lastError = None, t_attempt = 0, t_phase = Fetching \<rparr>
      in (p, loop_head now p task
               ((snd reg)\<lparr> promises := promises (snd reg) @ [Inl task] \<rparr>)))"

definition verifySkill ::
  "int \<Rightarrow> string \<Rightarrow> string option \<Rightarrow> int \<Rightarrow> Verifier \<Rightarrow> dispatch \<times> Verifier" where
  "verifySkill now skillId sessionId tmo w =
     (case map_of (skills w) skillId of
        None \<Rightarrow>
          (Resolved \<lparr> success = False,
             result_skill = Some \<lparr> skill_id = skillId, skill_name = ''unknown'',
               displayName = ''Unknown Skill'', skill_status = Failed,
               verificationUrl = None, lastVerified = None, skill_error = None,
               retryCount = 0 \<rparr>,
             result_error = Some \<lparr> code = ''SKILL_NOT_FOUND'',
               message = ''Skill '' @ skillId @ '' is not registered'',
               isNetworkError_flag = False, timestamp = now \<rparr> \<rparr>, w)
      | Some skill \<Rightarrow>
          (case map_of (verificationPromises w) skillId of
             Some existingPromise \<Rightarrow> (Pending existingPromise, w)
           | None \<Rightarrow>
               if \<not> has_url skill then
                 (let w1 = updateSkillStatus skillId Verified None w
                  in (Resolved \<lparr> success = True, result_skill = map_of (skills w1) skillId,
                        result_error = None \<rparr>, w1))
               else
                 (case performVerification now skill sessionId tmo w of
                    (p, w1) \<Rightarrow>
                      (Pending p,
                       finally_delete p skillId
                         (w1\<lparr> verificationPromises :=
                               AList.update skillId p (verificationPromises w1) \<rparr>)))))"

text \<open>The value a caller receives, once its promise has resolved.\<close>

definition received :: "Verifier \<Rightarrow> dispatch \<Rightarrow> SkillVerificationResult option" where
  "received w d = (case d of Resolved r \<Rightarrow> Some r | Pending p \<Rightarrow> result_of w p)"

subsection \<open>Verifying all skills\<close>

text \<open>
  A call of \<^verbatim>\<open>verifyAllSkills\<close> that waits: the ids of the skills it scanned, what
  each \<^verbatim>\<open>verifySkill\<close> call gave, and the delay of its deadline timer.
\<close>

record Batch =
  b_scanned :: "string list"
  b_dispatches :: "dispatch list"
  b_deadline :: int

fun verify_each ::
  "int \<Rightarrow> string option \<Rightarrow> int \<Rightarrow> string list \<Rightarrow> Verifier \<Rightarrow> dispatch list \<times> Verifier" where
  "verify_each now sessionId tmo [] w = ([], w)"
| "verify_each now sessionId tmo (i # ids) w =
     (case verifySkill now i sessionId tmo w of
        (d, w1) \<Rightarrow>
          (case verify_each now sessionId tmo ids w1 of
             (ds, w2) \<Rightarrow> (d # ds, w2)))"

definition verifyAllSkills ::
  "int \<Rightarrow> string option \<Rightarrow> int \<Rightarrow> Verifier \<Rightarrow>
     (SkillVerificationResult list + Batch) \<times> Verifier" where
  "verifyAllSkills now sessionId tmo w =
     (let scanned = filter (\<lambda>s. skill_status s = Unverified) (getAllSkills w) in
      if length scanned = 0 then (Inl [], w)
      else
        (case verify_each now sessionId tmo (map skill_id scanned) w of
           (ds, w1) \<Rightarrow>
             (Inr \<lparr> b_scanned = map skill_id scanned, b_dispatches = ds,
                     b_deadline = tmo * 2 \<rparr>, w1)))"

text \<open>\<^verbatim>\<open>Promise.all\<close> over the calls: resolved once every one of them is.\<close>

definition all_received :: "Verifier \<Rightarrow> Batch \<Rightarrow> SkillVerificationResult list option" where
  "all_received w b =
     (if list_all (\<lambda>d. received w d \<noteq> None) (b_dispatches b)
      then Some (concat (map (\<lambda>d. case received w d of Some r \<Rightarrow> [r] | None \<Rightarrow> [])
                   (b_dispatches b)))
      else None)"

text \<open>
  The handler of the deadline, over the scanned skills. It reads the status of the
  objects scanned, which are the registry's entries as long as no id is registered
  again while the call waits.
\<close>

fun on_deadline ::
  "int \<Rightarrow> string list \<Rightarrow> Verifier \<Rightarrow> SkillVerificationResult list \<times> Verifier" where
  "on_deadline now [] w = ([], w)"
| "on_deadline now (i # ids) w =
     (case map_of (skills w) i of
        None \<Rightarrow> on_deadline now ids w
      | Some skill \<Rightarrow>
          if skill_status skill = Verifying then
            (let timeoutError = \<lparr> code = ''VERIFICATION_TIMEOUT'',
                   message = ''Skill verification timed out'',
                   isNetworkError_flag = False, timestamp = now \<rparr>;
                 w1 = updateSkillStatus i Failed (Some timeoutError) w
             in case on_deadline now ids w1 of
                  (rs, w2) \<Rightarrow>
                    (\<lparr> success = False, result_skill = map_of (skills w1) i,
                       result_error = Some timeoutError \<rparr> # rs, w2))
          else
            (case on_deadline now ids w of
               (rs, w2) \<Rightarrow>
                 (\<lparr> success = (skill_status skill = Verified), result_skill = Some skill,
                    result_error = None \<rparr> # rs, w2)))"

text \<open>
  Event: the deadline timer of the batch fires, \<open>b_deadline\<close> milliseconds after the
  call. If all calls have resolved, the race was won by them; else the handler runs.
\<close>

definition deadline_fired ::
  "int \<Rightarrow> Batch \<Rightarrow> Verifier \<Rightarrow> SkillVerificationResult list \<times> Verifier" where
  "deadline_fired now b w =
     (case all_received w b of
        Some rs \<Rightarrow> (rs, w)
      | None \<Rightarrow> on_deadline now (b_scanned b) w)"

definition disableSkill :: "string \<Rightarrow> Verifier \<Rightarrow> Verifier" where
  "disableSkill i w = updateSkillStatus i Disabled None w"

definition enableSkill :: "string \<Rightarrow> Verifier \<Rightarrow> Verifier" where
  "enableSkill i w =
     (case map_of (skills w) i of
        None \<Rightarrow> w
      | Some skill \<Rightarrow>
          if skill_status skill = Disabled
          then w\<lparr> skills := AList.update i
                 (skill\<lparr> skill_status := Unverified, skill_error := None, retryCount := 0 \<rparr>)
                 (skills w) \<rparr>
          else w)"

definition resetSkill :: "string \<Rightarrow> Verifier \<Rightarrow> Verifier" where
  "resetSkill i w =
     (case map_of (skills w) i of
        None \<Rightarrow> w
      | Some skill \<Rightarrow>
          if skill_status skill = Failed
          then w\<lparr> skills := AList.update i
                 (skill\<lparr> skill_status := Unverified, skill_error := None, retryCount := 0 \<rparr>)
                 (skills w) \<rparr>
          else w)"

definition areAllSkillsVerified :: "Verifier \<Rightarrow> bool" where
  "areAllSkillsVerified w =
     list_all (\<lambda>s. skill_status s = Verified)
       (filter (\<lambda>s. skill_status s \<noteq> Disabled) (getAllSkills w))"

definition getFailedSkills :: "Verifier \<Rightarrow> Skill list" where
  "getFailedSkills w = filter (\<lambda>s. skill_status s = Failed) (getAllSkills w)"

subsection \<open>Events while verifications are pending\<close>

text \<open>
  What can happen between the call of \<^verbatim>\<open>verifyAllSkills\<close> and its deadline, short of
  the administrative operations on skills (\<^verbatim>\<open>registerSkill\<close>, \<^verbatim>\<open>disableSkill\<close>,
  \<^verbatim>\<open>enableSkill\<close>, \<^verbatim>\<open>resetSkill\<close>): further \<^verbatim>\<open>verifySkill\<close> calls, network calls
  that end, backoff timers that fire, deadlines of other batches, and any operation on
  the session manager.
\<close>

inductive verifier_event :: "Verifier \<Rightarrow> Verifier \<Rightarrow> bool" where
  ev_verify: "verifier_event w (snd (verifySkill now i sessionId tmo w))"
| ev_fetch: "verifier_event w (fetch_settled now p outcome w)"
| ev_timer: "verifier_event w (timer_fired now p w)"
| ev_deadline: "verifier_event w (snd (deadline_fired now b w))"
| ev_manager: "verifier_event w (w\<lparr> manager := m \<rparr>)"

definition skills_wf :: "Verifier \<Rightarrow> bool" where
  "skills_wf w =
     (distinct (map fst (skills w)) \<and> list_all (\<lambda>(k, s). skill_id s = k) (skills w))"

definition status_at :: "Verifier \<Rightarrow> string \<Rightarrow> SkillStatus option" where
  "status_at w i = map_option skill_status (map_of (skills w) i)"


subsection \<open>Sample runs of the verifier\<close>

definition w_registered :: Verifier where
  "w_registered =
     snd (registerSkill ''moltbook'' ''moltbook'' ''Moltbook''
            (Some ''https://example.com/verify'') new_verifier)"

definition w_in_flight :: Verifier where
  "w_in_flight = snd (verifySkill 100 ''moltbook'' None 5000 w_registered)"

text \<open>The id is registered again without a URL while the call is pending, and disabled.\<close>

definition w_disabled :: Verifier where
  "w_disabled =
     disableSkill ''moltbook''
       (snd (registerSkill ''moltbook'' ''moltbook'' ''Moltbook'' None w_in_flight))"







text \<open>A skill without a URL and the skill with its URL, both disabled, nothing pending.\<close>

definition local_skill :: Skill where
  "local_skill = \<lparr> skill_id = ''local'', skill_name = ''local'', displayName = ''Local'',
     skill_status = Disabled, verificationUrl = None, lastVerified = None,
     skill_error = None, retryCount = 0 \<rparr>"

definition moltbook_skill :: Skill where
  "moltbook_skill = \<lparr> skill_id = ''moltbook'', skill_name = ''moltbook'',
     displayName = ''Moltbook'', skill_status = Disabled,
     verificationUrl = Some ''https://example.com/verify'', lastVerified = None,
     skill_error = None, retryCount = 0 \<rparr>"

definition w_two_disabled :: Verifier where
  "w_two_disabled =
     disableSkill ''local''
       (snd (registerSkill ''local'' ''local'' ''Local'' None
          (disableSkill ''moltbook'' w_registered)))"


subsection \<open>Relations between states of the registry\<close>

text \<open>
  \<open>progresses w w'\<close>: the registry has the same keys in the same order, every
  registered skill is still registered under its id, and its status is as before or
  one of verifying, verified, failed.
\<close>

definition progresses :: "Verifier \<Rightarrow> Verifier \<Rightarrow> bool" where
  "progresses w w' =
     (map fst (skills w') = map fst (skills w) \<and>
      (\<forall>i s. map_of (skills w) i = Some s \<longrightarrow>
        (\<exists>s'. map_of (skills w') i = Some s' \<and> skill_id s' = skill_id s \<and>
           (skill_status s' = skill_status s \<or>
            skill_status s' \<in> {Verifying, Verified, Failed}))))"

text \<open>
  \<open>force_failed w w'\<close>: every registered skill is as before, or was verifying and is
  now failed with the timeout error.
\<close>

definition force_failed :: "Verifier \<Rightarrow> Verifier \<Rightarrow> bool" where
  "force_failed w w' =
     (map fst (skills w') = map fst (skills w) \<and>
      (\<forall>i s. map_of (skills w) i = Some s \<longrightarrow>
        (\<exists>s'. map_of (skills w') i = Some s' \<and>
           (s' = s \<or>
            (skill_status s = Verifying \<and> skill_status s' = Failed \<and>
             skill_id s' = skill_id s \<and>
             map_option code (skill_error s') = Some ''VERIFICATION_TIMEOUT'')))))"




section \<open>Properties of the session manager\<close>

text \<open>
  Claim C2. \<^verbatim>\<open>markSystemSent(id)\<close> returns a session only when the id is known and its
  status is running, and the session returned and stored then has \<open>systemSent\<close> set; for
  an unknown id and for every other status it returns nothing and the whole manager
  state (session records, pending operations, persisted snapshot) is unchanged.
\<close>

theorem markSystemSent_only_when_running:
  "(\<forall>s'. fst (markSystemSent now i m) = Some s' \<longrightarrow>
      (\<exists>s. map_of (sessions m) i = Some s \<and> status s = Running) \<and>
      systemSent s' = True \<and> status s' = Running \<and>
      map_of (sessions (snd (markSystemSent now i m))) i = Some s') \<and>
   ((\<exists>s. map_of (sessions m) i = Some s \<and> status s = Running) \<longrightarrow>
      fst (markSystemSent now i m) \<noteq> None) \<and>
   (map_of (sessions m) i = None \<longrightarrow> markSystemSent now i m = (None, m)) \<and>
   (\<forall>s. map_of (sessions m) i = Some s \<and>
        status s \<in> {Idle, Initializing, Error, Terminated} \<longrightarrow>
        markSystemSent now i m = (None, m))"
  by (auto simp: markSystemSent_def updateSession_def apply_updates_def no_updates_def
        saveToStorage_def update_conv' Let_def split: option.splits)

theorem markSystemSent_only_when_running_witness:
  "fst (markSystemSent 1002 ''test-1'' m_running) \<noteq> None \<and>
   markSystemSent 1002 ''test-1'' m_created = (None, m_created) \<and>
   markSystemSent 1002 ''unknown'' m_created = (None, m_created)"
proof -
  have run: "\<exists>s. map_of (sessions m_running) ''test-1'' = Some s \<and> status s = Running"
    by (simp add: m_running_def m_created_def startSession_def updateSession_def
          createSession_def new_manager_def saveToStorage_def apply_updates_def
          no_updates_def Let_def)
  have idle: "\<exists>s. map_of (sessions m_created) ''test-1'' = Some s \<and> status s = Idle"
    by (simp add: m_created_def createSession_def new_manager_def saveToStorage_def Let_def)
  have none: "map_of (sessions m_created) ''unknown'' = None"
    by (simp add: m_created_def createSession_def new_manager_def saveToStorage_def Let_def)
  show ?thesis
    using run idle none
      markSystemSent_only_when_running [of 1002 "''test-1''" m_running]
      markSystemSent_only_when_running [of 1002 "''test-1''" m_created]
      markSystemSent_only_when_running [of 1002 "''unknown''" m_created]
    by blast
qed

subsection \<open>The completion flag\<close>

lemma in_set_update:
  "(k', v') \<in> set (AList.update k v al) \<Longrightarrow> (k', v') = (k, v) \<or> (k', v') \<in> set al"
  by (induction al) (auto split: if_splits)

lemma sessions_cancelPendingOperations [simp]:
  "sessions (cancelPendingOperations i m) = sessions m"
  by (simp add: cancelPendingOperations_def split: option.splits)

lemma updateSession_flags_ok:
  assumes "flags_ok m"
    and "\<And>s. map_of (sessions m) i = Some s \<Longrightarrow> flag_ok (apply_updates now u s)"
  shows "flags_ok (snd (updateSession now i u m))"
proof (cases "map_of (sessions m) i")
  case None
  then show ?thesis using assms(1) by (simp add: updateSession_def)
next
  case (Some s)
  then have "flag_ok (apply_updates now u s)" by (rule assms(2))
  with Some assms(1) show ?thesis
    by (auto simp: updateSession_def flags_ok_def saveToStorage_def Let_def
          dest!: in_set_update)
qed

lemma startSession_flags_ok: "flags_ok m \<Longrightarrow> flags_ok (snd (startSession now i m))"
  unfolding startSession_def
  by (rule updateSession_flags_ok) (simp_all add: flag_ok_def apply_updates_def no_updates_def)

lemma errorSession_flags_ok: "flags_ok m \<Longrightarrow> flags_ok (snd (errorSession now i e m))"
proof -
  assume ok: "flags_ok m"
  then have "flags_ok (cancelPendingOperations i m)" by (simp add: flags_ok_def)
  then show ?thesis
    unfolding errorSession_def
    by (cases e) (auto intro!: updateSession_flags_ok
          simp: flag_ok_def apply_updates_def no_updates_def)
qed

lemma terminateSession_flags_ok: "flags_ok m \<Longrightarrow> flags_ok (snd (terminateSession now i m))"
proof -
  assume ok: "flags_ok m"
  then have "flags_ok (cancelPendingOperations i m)" by (simp add: flags_ok_def)
  then show ?thesis
    unfolding terminateSession_def
    by (rule updateSession_flags_ok) (simp_all add: flag_ok_def apply_updates_def no_updates_def)
qed

lemma markSystemSent_flags_ok: "flags_ok m \<Longrightarrow> flags_ok (snd (markSystemSent now i m))"
proof (cases "map_of (sessions m) i")
  case None
  assume "flags_ok m"
  with None show ?thesis by (simp add: markSystemSent_def)
next
  case (Some s)
  assume ok: "flags_ok m"
  show ?thesis
  proof (cases "status s = Running")
    case True
    have "flags_ok (snd (updateSession now i (no_updates\<lparr> u_systemSent := Some True \<rparr>) m))"
      using ok
      by (rule updateSession_flags_ok)
         (use Some True in \<open>simp add: flag_ok_def apply_updates_def no_updates_def\<close>)
    with Some True show ?thesis by (simp add: markSystemSent_def)
  next
    case False
    with Some ok show ?thesis by (simp add: markSystemSent_def)
  qed
qed

lemma createSession_flags_ok: "flags_ok m \<Longrightarrow> flags_ok (snd (createSession now i n c m))"
  by (auto simp: createSession_def flags_ok_def flag_ok_def saveToStorage_def Let_def
        dest!: in_set_update)

lemma deleteSession_flags_ok: "flags_ok m \<Longrightarrow> flags_ok (snd (deleteSession i m))"
  by (auto simp: deleteSession_def flags_ok_def saveToStorage_def Let_def AList.delete_eq
        split: option.splits)

lemma registerOperation_flags_ok: "flags_ok m \<Longrightarrow> flags_ok (snd (registerOperation i m))"
  by (simp add: registerOperation_def flags_ok_def Let_def)

lemma updateStats_flags_ok: "flags_ok m \<Longrightarrow> flags_ok (snd (updateStats now i d t m))"
proof (cases "map_of (sessions m) i")
  case None
  assume "flags_ok m"
  with None show ?thesis by (simp add: updateStats_def)
next
  case (Some s)
  assume ok: "flags_ok m"
  from Some have "(i, s) \<in> set (sessions m)" by (rule map_of_SomeD)
  with ok have "flag_ok s" by (auto simp: flags_ok_def)
  then have "flags_ok (snd (updateSession now i
      (no_updates\<lparr> u_stats := Some ((stats s)
         \<lparr> totalTokens := totalTokens (stats s) + d,
           turnCount := (if t then turnCount (stats s) + 1 else turnCount (stats s)) \<rparr>) \<rparr>) m))"
    using ok Some
    by (intro updateSession_flags_ok) (simp_all add: flag_ok_def apply_updates_def no_updates_def)
  with Some show ?thesis by (simp add: updateStats_def)
qed

lemma cleanup_loop_flags_ok:
  "flags_ok m \<Longrightarrow> flags_ok (snd (cleanup_loop now ids (c, m)))"
  by (induction ids arbitrary: c m) (auto simp: terminateSession_flags_ok split: option.splits)

lemma reachable_flags_ok: "reachable m \<Longrightarrow> flags_ok m"
proof (induction rule: reachable.induct)
  case reach_new
  show ?case by (simp add: flags_ok_def new_manager_def)
next
  case (reach_cleanup m now)
  then show ?case by (simp add: cleanupZombieSessions_def cleanup_loop_flags_ok)
next
  case (reach_cancel m i)
  then show ?case by (simp add: flags_ok_def)
qed (simp_all add: createSession_flags_ok startSession_flags_ok markSystemSent_flags_ok
      errorSession_flags_ok terminateSession_flags_ok deleteSession_flags_ok
      registerOperation_flags_ok updateStats_flags_ok)

lemma errorSession_result:
  "fst (errorSession now i e m) = Some s' \<Longrightarrow>
     status s' = Error \<and> systemSent s' = False \<and>
     map_of (sessions (snd (errorSession now i e m))) i = Some s'"
  by (cases e)
     (auto simp: errorSession_def updateSession_def apply_updates_def no_updates_def
        saveToStorage_def update_conv' Let_def split: option.splits)

lemma terminateSession_result:
  "fst (terminateSession now i m) = Some s' \<Longrightarrow>
     status s' = Terminated \<and> systemSent s' = False \<and> interrupted s' = True \<and>
     map_of (sessions (snd (terminateSession now i m))) i = Some s'"
  by (auto simp: terminateSession_def updateSession_def apply_updates_def no_updates_def
        saveToStorage_def update_conv' Let_def split: option.splits)

text \<open>
  Claim C1. In every state the manager reaches through its operations, a session whose
  \<open>systemSent\<close> flag is set has status running, so none has the flag set together with
  status error or terminated; and the record that \<^verbatim>\<open>errorSession\<close> or
  \<^verbatim>\<open>terminateSession\<close> returns and stores has the new status and \<open>systemSent\<close> false
  at once.
\<close>

theorem systemSent_implies_running:
  assumes "reachable m"
  shows "(\<forall>(i, s) \<in> set (sessions m). systemSent s \<longrightarrow> status s = Running) \<and>
         (\<forall>(i, s) \<in> set (sessions m). \<not> (systemSent s \<and> status s \<in> {Error, Terminated})) \<and>
         (\<forall>now i e s'. fst (errorSession now i e m) = Some s' \<longrightarrow>
            status s' = Error \<and> systemSent s' = False \<and>
            map_of (sessions (snd (errorSession now i e m))) i = Some s') \<and>
         (\<forall>now i s'. fst (terminateSession now i m) = Some s' \<longrightarrow>
            status s' = Terminated \<and> systemSent s' = False \<and>
            map_of (sessions (snd (terminateSession now i m))) i = Some s')"
proof -
  from assms have "flags_ok m" by (rule reachable_flags_ok)
  then have inv: "\<forall>(i, s) \<in> set (sessions m). systemSent s \<longrightarrow> status s = Running"
    by (simp add: flags_ok_def flag_ok_def)
  then have "\<forall>(i, s) \<in> set (sessions m). \<not> (systemSent s \<and> status s \<in> {Error, Terminated})"
    by auto
  with inv show ?thesis
    using errorSession_result terminateSession_result by blast
qed

lemmas manager_eval =
  m_created_def m_running_def m_sent_def m_terminated_def test_config_def
  createSession_def startSession_def markSystemSent_def terminateSession_def
  errorSession_def updateSession_def apply_updates_def no_updates_def saveToStorage_def
  new_manager_def cancelPendingOperations_def timeout_or_default_def
  DEFAULT_SESSION_TIMEOUT_def Let_def

theorem systemSent_implies_running_witness:
  "reachable m_sent \<and>
   map_option systemSent (map_of (sessions m_sent) ''test-1'') = Some True \<and>
   map_option status (map_of (sessions m_sent) ''test-1'') = Some Running \<and>
   map_option status (fst (terminateSession 1003 ''test-1'' m_sent)) = Some Terminated \<and>
   map_option systemSent (fst (terminateSession 1003 ''test-1'' m_sent)) = Some False"
proof -
  have r: "reachable m_sent"
    unfolding m_sent_def m_running_def m_created_def
    by (intro reach_mark reach_start reach_create reach_new)
  have sent: "map_option systemSent (map_of (sessions m_sent) ''test-1'') = Some True"
    by (simp add: manager_eval)
  obtain s where s: "map_of (sessions m_sent) ''test-1'' = Some s"
    by (simp add: manager_eval)
  then have "(''test-1'', s) \<in> set (sessions m_sent)"
    by (rule map_of_SomeD)
  with systemSent_implies_running [OF r] s sent have run: "status s = Running"
    by auto
  obtain s' where t: "fst (terminateSession 1003 ''test-1'' m_sent) = Some s'"
    by (simp add: manager_eval)
  from systemSent_implies_running [OF r] t
  have "status s' = Terminated \<and> systemSent s' = False"
    by blast
  with t r sent s run show ?thesis
    by simp
qed

subsection \<open>Operations on a terminated session\<close>

lemma terminateSession_other:
  "j \<noteq> i \<Longrightarrow> map_of (sessions (snd (terminateSession now j m))) i = map_of (sessions m) i"
  by (simp add: terminateSession_def updateSession_def saveToStorage_def update_conv' Let_def
        split: option.splits)

lemma cleanup_loop_keeps:
  "map_of (sessions m) i = Some s \<Longrightarrow> \<not> isZombieSession now s \<Longrightarrow>
     map_of (sessions (snd (cleanup_loop now ids (c, m)))) i = Some s"
proof (induction ids arbitrary: c m)
  case Nil
  then show ?case by simp
next
  case (Cons j ids)
  show ?case
  proof (cases "map_of (sessions m) j")
    case None
    with Cons show ?thesis by simp
  next
    case (Some sj)
    show ?thesis
    proof (cases "isZombieSession now sj")
      case True
      with Some Cons.prems have "j \<noteq> i" by auto
      then have "map_of (sessions (snd (terminateSession now j m))) i = Some s"
        using Cons.prems(1) by (simp add: terminateSession_other)
      from Cons.IH [OF this Cons.prems(2)] Some True show ?thesis by simp
    next
      case False
      with Some Cons show ?thesis by simp
    qed
  qed
qed

text \<open>
  Claim C4, as stated: once a session is terminated, \<^verbatim>\<open>startSession\<close> on its id is a
  no-op that leaves the stored record unchanged. The code has no such guard: the
  terminated session of the sample run is running again after \<^verbatim>\<open>startSession\<close>.
\<close>

theorem terminated_is_final_counterexample:
  "map_option status (map_of (sessions m_terminated) ''test-1'') = Some Terminated \<and>
   map_option status
     (map_of (sessions (snd (startSession 1004 ''test-1'' m_terminated))) ''test-1'')
     = Some Running"
  by (simp add: manager_eval)

text \<open>
  Claim C4, amended. On a terminated session \<^verbatim>\<open>markSystemSent\<close> is refused and changes
  nothing, and \<^verbatim>\<open>cleanupZombieSessions\<close> leaves its record as it is (a terminated
  session is no zombie). \<^verbatim>\<open>startSession\<close>, \<^verbatim>\<open>errorSession\<close> and \<^verbatim>\<open>updateSession\<close>
  do not look at the status: each replaces the stored record, with status running (and
  \<open>systemSent\<close> false), with status error, and with the merged partial record.
\<close>

theorem operations_after_terminate:
  assumes "map_of (sessions m) i = Some s" and "status s = Terminated"
  shows "markSystemSent now i m = (None, m) \<and>
         map_of (sessions (snd (cleanupZombieSessions now m))) i = Some s \<and>
         map_of (sessions (snd (startSession now i m))) i =
           Some (s\<lparr> status := Running, systemSent := False, updatedAt := now,
                    stats := (stats s)\<lparr> lastActivityTime := now \<rparr> \<rparr>) \<and>
         map_of (sessions (snd (errorSession now i (c, msg, r) m))) i =
           Some (s\<lparr> status := Error, systemSent := False,
                    session_error := Some \<lparr> err_code = c, err_message = msg,
                      recoverable = r, err_timestamp = now \<rparr>,
                    updatedAt := now,
                    stats := (stats s)\<lparr> lastActivityTime := now \<rparr> \<rparr>) \<and>
         map_of (sessions (snd (updateSession now i u m))) i = Some (apply_updates now u s)"
proof -
  have mark: "markSystemSent now i m = (None, m)"
    using assms by (simp add: markSystemSent_def)
  have "\<not> isZombieSession now s"
    using assms(2) by (simp add: isZombieSession_def Let_def)
  with assms(1) have clean: "map_of (sessions (snd (cleanupZombieSessions now m))) i = Some s"
    by (simp add: cleanupZombieSessions_def cleanup_loop_keeps)
  have start: "map_of (sessions (snd (startSession now i m))) i =
      Some (s\<lparr> status := Running, systemSent := False, updatedAt := now,
               stats := (stats s)\<lparr> lastActivityTime := now \<rparr> \<rparr>)"
    using assms(1)
    by (simp add: startSession_def updateSession_def apply_updates_def no_updates_def
          saveToStorage_def update_conv' Let_def)
  have err: "map_of (sessions (snd (errorSession now i (c, msg, r) m))) i =
      Some (s\<lparr> status := Error, systemSent := False,
               session_error := Some \<lparr> err_code = c, err_message = msg,
                 recoverable = r, err_timestamp = now \<rparr>,
               updatedAt := now,
               stats := (stats s)\<lparr> lastActivityTime := now \<rparr> \<rparr>)"
    using assms(1)
    by (simp add: errorSession_def updateSession_def apply_updates_def no_updates_def
          saveToStorage_def update_conv' Let_def)
  have upd: "map_of (sessions (snd (updateSession now i u m))) i = Some (apply_updates now u s)"
    using assms(1)
    by (simp add: updateSession_def saveToStorage_def update_conv' Let_def)
  from mark clean start err upd show ?thesis by blast
qed

theorem operations_after_terminate_witness:
  "markSystemSent 1004 ''test-1'' m_terminated = (None, m_terminated) \<and>
   map_option status
     (map_of (sessions (snd (errorSession 1004 ''test-1'' (''E'', ''failed'', False)
        m_terminated))) ''test-1'') = Some Error \<and>
   map_option status
     (map_of (sessions (snd (cleanupZombieSessions 999999 m_terminated))) ''test-1'')
     = Some Terminated"
proof -
  obtain s where s: "map_of (sessions m_terminated) ''test-1'' = Some s"
    and t: "status s = Terminated"
    by (simp add: manager_eval)
  from operations_after_terminate [OF s t, of 1004 "''E''" "''failed''" False]
    operations_after_terminate [OF s t, of 999999] t
  show ?thesis by simp
qed

subsection \<open>Creating a session\<close>

text \<open>
  Claim C3, as stated: a configuration with a key outside the allow-list makes
  \<^verbatim>\<open>createSession\<close> fail. The code validates nothing there: the configuration with the
  extra key \<^verbatim>\<open>temperature\<close> gives a stored session that carries the key.
\<close>

theorem createSession_rejects_unknown_keys_counterexample:
  "\<not> config_keys drifted_config \<subseteq> set sessionConfigKeys \<and>
   map_option (\<lambda>s. otherKeys (config s))
     (map_of (sessions (snd (createSession 1000 ''s1'' ''Drifted'' drifted_config new_manager)))
        ''s1'')
     = Some [(''temperature'', JNum 1)]"
  by (simp add: drifted_config_def config_keys_def config_object_def sessionConfigKeys_def
        createSession_def saveToStorage_def new_manager_def Let_def)

text \<open>
  Claim C3, amended. \<^verbatim>\<open>createSession\<close> never fails and checks nothing: for every
  configuration it returns and stores an idle session with \<open>systemSent\<close> false, zeroed
  counters, and the given configuration, extra keys included, with the timeout
  defaulted. Rejecting a configuration whose keys leave the allow-list is what
  \<^verbatim>\<open>validateSessionConfig\<close> does, which \<^verbatim>\<open>createSession\<close> does not call.
\<close>

theorem createSession_never_fails:
  "status (fst (createSession now i n c m)) = Idle \<and>
   systemSent (fst (createSession now i n c m)) = False \<and>
   interrupted (fst (createSession now i n c m)) = False \<and>
   totalTokens (stats (fst (createSession now i n c m))) = 0 \<and>
   turnCount (stats (fst (createSession now i n c m))) = 0 \<and>
   config (fst (createSession now i n c m)) =
     c\<lparr> timeout := Some (timeout_or_default (timeout c)) \<rparr> \<and>
   otherKeys (config (fst (createSession now i n c m))) = otherKeys c \<and>
   map_of (sessions (snd (createSession now i n c m))) i =
     Some (fst (createSession now i n c m)) \<and>
   (\<not> config_keys c \<subseteq> set sessionConfigKeys \<longrightarrow> \<not> validateSessionConfig (config_object c))"
proof -
  obtain ps where ps: "config_object c = JObj ps"
    by (simp add: config_object_def)
  have "validateSessionConfig (JObj ps) \<longrightarrow> set (map fst ps) \<subseteq> set sessionConfigKeys"
    by (auto simp: list_all_iff)
  with ps have "\<not> config_keys c \<subseteq> set sessionConfigKeys \<longrightarrow>
      \<not> validateSessionConfig (config_object c)"
    by (auto simp: config_keys_def)
  then show ?thesis
    by (simp add: createSession_def saveToStorage_def update_conv' Let_def)
qed

theorem createSession_never_fails_witness:
  "\<not> config_keys drifted_config \<subseteq> set sessionConfigKeys \<and>
   \<not> validateSessionConfig (config_object drifted_config) \<and>
   validateSessionConfig (config_object test_config)"
proof -
  have k: "\<not> config_keys drifted_config \<subseteq> set sessionConfigKeys"
    by (simp add: drifted_config_def config_keys_def config_object_def sessionConfigKeys_def)
  have ok: "validateSessionConfig (config_object test_config)"
    by (simp add: test_config_def config_object_def sessionConfigKeys_def)
  from k ok createSession_never_fails [of 1000 "''s1''" "''Drifted''" drifted_config new_manager]
  show ?thesis by blast
qed

section \<open>Properties of the error classifier\<close>




section \<open>Properties of the load path\<close>

lemma load_entries_loadable:
  "load_entries coerce now es acc = Inr m \<Longrightarrow>
   \<forall>(i, s) \<in> set acc. loadable coerce now s \<Longrightarrow>
   \<forall>(i, s) \<in> set m. loadable coerce now s"
proof (induction es arbitrary: acc)
  case Nil
  then show ?case by simp
next
  case (Cons p es)
  obtain i session where p: "p = (i, session)" by (cases p)
  show ?case
  proof (cases "isZombieSession_raw coerce now session")
    case (Inl e)
    with Cons.prems(1) p show ?thesis by simp
  next
    case (Inr z)
    show ?thesis
    proof (cases "z \<or> \<not> validateSession session")
      case True
      with Cons.prems(1) p Inr have "load_entries coerce now es acc = Inr m"
        by (auto split: if_splits bool.splits)
      then show ?thesis using Cons.prems(2) by (rule Cons.IH)
    next
      case False
      with Cons.prems(1) p Inr
      have run: "load_entries coerce now es (AList.update i session acc) = Inr m"
        by simp
      from False Inr have "loadable coerce now session"
        by (simp add: loadable_def)
      with Cons.prems(2)
      have "\<forall>(j, s) \<in> set (AList.update i session acc). loadable coerce now s"
        by (auto dest!: in_set_update)
      with run show ?thesis by (rule Cons.IH)
    qed
  qed
qed

lemma load_entries_keys:
  "load_entries coerce now es acc = Inr m \<Longrightarrow>
   fst ` set m \<subseteq> fst ` set acc \<union> {i. \<exists>s. (i, s) \<in> set es \<and> loadable coerce now s}"
proof (induction es arbitrary: acc)
  case Nil
  then show ?case by simp
next
  case (Cons p es)
  obtain i session where p: "p = (i, session)" by (cases p)
  show ?case
  proof (cases "isZombieSession_raw coerce now session")
    case (Inl e)
    with Cons.prems p show ?thesis by simp
  next
    case (Inr z)
    show ?thesis
    proof (cases "z \<or> \<not> validateSession session")
      case True
      with Cons.prems p Inr have "load_entries coerce now es acc = Inr m"
        by (auto split: if_splits bool.splits)
      from Cons.IH [OF this] p show ?thesis by auto
    next
      case False
      with Cons.prems p Inr
      have run: "load_entries coerce now es (AList.update i session acc) = Inr m"
        by simp
      from False Inr have "loadable coerce now session"
        by (simp add: loadable_def)
      with Cons.IH [OF run] p show ?thesis
        by (auto simp: dom_update)
    qed
  qed
qed

lemma load_entries_raises:
  "(i, s) \<in> set es \<Longrightarrow> isZombieSession_raw coerce now s = Inl e \<Longrightarrow>
   \<exists>e'. load_entries coerce now es acc = Inl e'"
proof (induction es arbitrary: acc)
  case Nil
  then show ?case by simp
next
  case (Cons p es)
  obtain j session where p: "p = (j, session)" by (cases p)
  show ?case
  proof (cases "p = (i, s)")
    case True
    with p Cons.prems(2) show ?thesis by simp
  next
    case False
    with Cons.prems(1) have "(i, s) \<in> set es" by simp
    from Cons.IH [OF this Cons.prems(2)] p show ?thesis
      by (auto split: sum.splits bool.splits)
  qed
qed

lemma unknown_key_invalid: "has_unknown_config_key s \<Longrightarrow> \<not> validateSession s"
  by (auto simp: has_unknown_config_key_def validateSession_def Let_def list_all_iff)

lemma not_loadable:
  "isZombieSession_raw coerce now s = Inr True \<or> has_unknown_config_key s \<or>
     \<not> validateSession s \<Longrightarrow> \<not> loadable coerce now s"
  by (auto simp: loadable_def dest: unknown_key_invalid)

lemma loadFromStorage_loadable:
  assumes "(i, s) \<in> set (loadFromStorage coerce now stored)"
  shows "loadable coerce now s"
proof (cases "load_try coerce now stored")
  case (Inl e)
  with assms show ?thesis by (simp add: loadFromStorage_def)
next
  case (Inr m)
  then obtain es where "load_entries coerce now es [] = Inr m"
    by (auto simp: load_try_def split: sum.splits)
  from load_entries_loadable [OF this] have "\<forall>(i, s) \<in> set m. loadable coerce now s"
    by simp
  with assms Inr show ?thesis by (auto simp: loadFromStorage_def)
qed

lemma loadFromStorage_absent:
  assumes "stored = Inr (JObj es)" and "distinct (map fst es)" and "(i, s) \<in> set es"
    and "\<not> loadable coerce now s"
  shows "map_of (loadFromStorage coerce now stored) i = None"
proof (cases "load_entries coerce now es []")
  case (Inl e)
  with assms(1) show ?thesis by (simp add: loadFromStorage_def load_try_def)
next
  case (Inr m)
  have only: "\<And>s'. (i, s') \<in> set es \<Longrightarrow> s' = s"
    by (rule eq_key_imp_eq_value [OF assms(2) _ assms(3)])
  with assms(4) have "i \<notin> {i. \<exists>s. (i, s) \<in> set es \<and> loadable coerce now s}"
    by auto
  with load_entries_keys [OF Inr] have "i \<notin> fst ` set m"
    by auto
  then have "map_of m i = None"
    by (simp add: map_of_eq_None_iff)
  with Inr assms(1) show ?thesis by (simp add: loadFromStorage_def load_try_def)
qed

lemma loadFromStorage_raises:
  assumes "stored = Inr v" and "object_entries v = Inr es" and "(i, s) \<in> set es"
    and "isZombieSession_raw coerce now s = Inl e"
  shows "loadFromStorage coerce now stored = []"
proof -
  from load_entries_raises [OF assms(3,4)]
  obtain e' where "load_entries coerce now es [] = Inl e'" by blast
  with assms(1,2) show ?thesis by (simp add: loadFromStorage_def load_try_def)
qed

text \<open>
  Claim C9. After the load, every session in memory is no zombie, passes
  \<^verbatim>\<open>validateSession\<close> and has no configuration key outside the allow-list; a stored
  record that is a zombie, that has such a key or that fails the validation otherwise
  is absent under its id; and when the read or the stored value is corrupt (the read
  raises, the value is \<^verbatim>\<open>null\<close> or \<^verbatim>\<open>undefined\<close>, or reading some record raises)
  the set in memory is empty and nothing is raised.
\<close>

theorem loadFromStorage_drops_invalid:
  "(\<forall>(i, s) \<in> set (loadFromStorage coerce now stored).
      isZombieSession_raw coerce now s = Inr False \<and> validateSession s \<and>
      \<not> has_unknown_config_key s) \<and>
   (\<forall>es i s. stored = Inr (JObj es) \<and> distinct (map fst es) \<and> (i, s) \<in> set es \<and>
      (isZombieSession_raw coerce now s = Inr True \<or> has_unknown_config_key s \<or>
       \<not> validateSession s) \<longrightarrow>
      map_of (loadFromStorage coerce now stored) i = None) \<and>
   (\<forall>e. load_try coerce now stored = Inl e \<longrightarrow> loadFromStorage coerce now stored = []) \<and>
   (stored = Inl StorageError \<or> stored = Inr JNull \<or> stored = Inr JUndefined \<longrightarrow>
      loadFromStorage coerce now stored = []) \<and>
   (\<forall>v es i s e. stored = Inr v \<and> object_entries v = Inr es \<and> (i, s) \<in> set es \<and>
      isZombieSession_raw coerce now s = Inl e \<longrightarrow>
      loadFromStorage coerce now stored = [])"
proof -
  have a: "\<forall>(i, s) \<in> set (loadFromStorage coerce now stored).
      isZombieSession_raw coerce now s = Inr False \<and> validateSession s \<and>
      \<not> has_unknown_config_key s"
  proof (clarify, intro conjI)
    fix i s
    assume "(i, s) \<in> set (loadFromStorage coerce now stored)"
    then have l: "loadable coerce now s"
      by (rule loadFromStorage_loadable)
    then show "isZombieSession_raw coerce now s = Inr False" and v: "validateSession s"
      by (simp_all add: loadable_def)
    from v show "\<not> has_unknown_config_key s"
      using unknown_key_invalid by blast
  qed
  have b: "\<forall>es i s. stored = Inr (JObj es) \<and> distinct (map fst es) \<and> (i, s) \<in> set es \<and>
      (isZombieSession_raw coerce now s = Inr True \<or> has_unknown_config_key s \<or>
       \<not> validateSession s) \<longrightarrow>
      map_of (loadFromStorage coerce now stored) i = None"
  proof (intro allI impI)
    fix es i s
    assume h: "stored = Inr (JObj es) \<and> distinct (map fst es) \<and> (i, s) \<in> set es \<and>
      (isZombieSession_raw coerce now s = Inr True \<or> has_unknown_config_key s \<or>
       \<not> validateSession s)"
    then have "\<not> loadable coerce now s"
      by (intro not_loadable) simp
    with h show "map_of (loadFromStorage coerce now stored) i = None"
      by (intro loadFromStorage_absent [of stored es i s]) simp_all
  qed
  have c: "\<forall>e. load_try coerce now stored = Inl e \<longrightarrow> loadFromStorage coerce now stored = []"
    by (simp add: loadFromStorage_def)
  have d: "stored = Inl StorageError \<or> stored = Inr JNull \<or> stored = Inr JUndefined \<longrightarrow>
      loadFromStorage coerce now stored = []"
    by (auto simp: loadFromStorage_def load_try_def)
  have e: "\<forall>v es i s e. stored = Inr v \<and> object_entries v = Inr es \<and> (i, s) \<in> set es \<and>
      isZombieSession_raw coerce now s = Inl e \<longrightarrow>
      loadFromStorage coerce now stored = []"
  proof (intro allI impI)
    fix v es i s e
    assume "stored = Inr v \<and> object_entries v = Inr es \<and> (i, s) \<in> set es \<and>
      isZombieSession_raw coerce now s = Inl e"
    then show "loadFromStorage coerce now stored = []"
      by (intro loadFromStorage_raises [of stored v es i s coerce now e]) simp_all
  qed
  show ?thesis
    by (intro conjI a b c d e)
qed

theorem loadFromStorage_drops_invalid_witness:
  "loadFromStorage no_coercion 2000 (Inr stored_blob) =
     [(''live'', stored_session ''live'' True stored_config 1950)] \<and>
   map_of (loadFromStorage no_coercion 2000 (Inr stored_blob)) ''zombie'' = None \<and>
   map_of (loadFromStorage no_coercion 2000 (Inr stored_blob)) ''drifted'' = None \<and>
   loadFromStorage no_coercion 2000 (Inr JNull) = [] \<and>
   loadFromStorage no_coercion 2000
     (Inr (JObj [(''live'', stored_session ''live'' True stored_config 1950),
                 (''broken'', JNull)])) = []"
proof -
  let ?es = "[(''live'', stored_session ''live'' True stored_config 1950),
              (''zombie'', stored_session ''zombie'' True stored_config 1000),
              (''drifted'', stored_session ''drifted'' False drifted_stored_config 1950)]"
  let ?broken = "[(''live'', stored_session ''live'' True stored_config 1950),
                  (''broken'', JNull)]"
  note blob = loadFromStorage_drops_invalid [of no_coercion 2000 "Inr stored_blob"]
  note absent = blob [THEN conjunct2, THEN conjunct1, rule_format]
  have z: "isZombieSession_raw no_coercion 2000
      (stored_session ''zombie'' True stored_config 1000) = Inr True"
    by code_simp
  have k: "has_unknown_config_key (stored_session ''drifted'' False drifted_stored_config 1950)"
    by code_simp
  have live: "loadFromStorage no_coercion 2000 (Inr stored_blob) =
      [(''live'', stored_session ''live'' True stored_config 1950)]"
    by code_simp
  have zombie: "map_of (loadFromStorage no_coercion 2000 (Inr stored_blob)) ''zombie'' = None"
    using z
    by (intro absent [of ?es "''zombie''" "stored_session ''zombie'' True stored_config 1000"])
       (simp add: stored_blob_def)
  have drifted: "map_of (loadFromStorage no_coercion 2000 (Inr stored_blob)) ''drifted'' = None"
    using k
    by (intro absent [of ?es "''drifted''"
          "stored_session ''drifted'' False drifted_stored_config 1950"])
       (simp add: stored_blob_def)
  have null: "loadFromStorage no_coercion 2000 (Inr JNull) = []"
    using loadFromStorage_drops_invalid [of no_coercion 2000 "Inr JNull"] by simp
  have raise: "isZombieSession_raw no_coercion 2000 JNull = Inl TypeError"
    by (simp add: isZombieSession_raw_def get_prop_def)
  note broken_blob = loadFromStorage_drops_invalid [of no_coercion 2000 "Inr (JObj ?broken)"]
  have broken: "loadFromStorage no_coercion 2000 (Inr (JObj ?broken)) = []"
    using raise
    by (intro broken_blob [THEN conjunct2, THEN conjunct2, THEN conjunct2, THEN conjunct2,
          rule_format, of "JObj ?broken" ?broken "''broken''" JNull TypeError])
       simp
  from live zombie drifted null broken show ?thesis
    by (intro conjI)
qed

subsection \<open>The typed session and the stored record\<close>

lemma status_string_eq [simp]:
  "(status_string st = ''terminated'') = (st = Terminated)"
  "(status_string st = ''error'') = (st = Error)"
  by (cases st; simp)+

lemma config_object_keys:
  "\<exists>ps. config_object c = JObj (ps @ otherKeys c) \<and> set (map fst ps) \<subseteq> set sessionConfigKeys \<and>
     map_of ps ''timeout'' = map_option JNum (timeout c)"
proof -
  let ?ps = "[(''model'', JStr (model c))] @
           (case system c of None \<Rightarrow> [] | Some s \<Rightarrow> [(''system'', JStr s)]) @
           (case tools c of None \<Rightarrow> [] | Some ts \<Rightarrow> [(''tools'', JArr (map JStr ts))]) @
           (case timeout c of None \<Rightarrow> [] | Some t \<Rightarrow> [(''timeout'', JNum t)])"
  have "config_object c = JObj (?ps @ otherKeys c)"
    by (simp add: config_object_def)
  moreover have "set (map fst ?ps) \<subseteq> set sessionConfigKeys"
    by (cases "system c"; cases "tools c"; cases "timeout c")
       (simp_all add: sessionConfigKeys_def)
  moreover have "map_of ?ps ''timeout'' = map_option JNum (timeout c)"
    by (cases "system c"; cases "tools c"; cases "timeout c") simp_all
  ultimately show ?thesis by blast
qed

lemma config_object_timeout:
  assumes "fst ` set (otherKeys c) \<inter> set sessionConfigKeys = {}"
  shows "own_prop (config_object c) ''timeout'' =
           (case timeout c of None \<Rightarrow> JUndefined | Some t \<Rightarrow> JNum t)"
proof -
  from assms have "''timeout'' \<notin> fst ` set (otherKeys c)"
    by (auto simp: sessionConfigKeys_def)
  then have o: "map_of (otherKeys c) ''timeout'' = None"
    by (simp add: map_of_eq_None_iff)
  from config_object_keys [of c] obtain ps where ps: "config_object c = JObj (ps @ otherKeys c)"
    "map_of ps ''timeout'' = map_option JNum (timeout c)"
    by blast
  with o show ?thesis
    by (cases "timeout c") (simp_all add: map_add_def)
qed

text \<open>
  On the stored form of a typed session, the unchecked \<^verbatim>\<open>isZombieSession\<close> raises
  nothing and answers as the typed one.
\<close>

lemma isZombieSession_raw_typed:
  assumes "fst ` set (otherKeys (config s)) \<inter> set sessionConfigKeys = {}"
  shows "isZombieSession_raw coerce now (session_object s) = Inr (isZombieSession now s)"
proof -
  obtain ps where ps: "config_object (config s) = JObj ps"
    by (simp add: config_object_def)
  have g1: "get_prop (session_object s) ''config'' = Inr (config_object (config s))"
    by (simp add: get_prop_def session_object_def)
  have g2: "get_prop (config_object (config s)) ''timeout'' =
      Inr (case timeout (config s) of None \<Rightarrow> JUndefined | Some t \<Rightarrow> JNum t)"
    using config_object_timeout [OF assms] ps by (simp add: get_prop_def)
  have g3: "get_prop (session_object s) ''stats'' = Inr (stats_object (stats s))"
    by (simp add: get_prop_def session_object_def)
  have g4: "get_prop (stats_object (stats s)) ''lastActivityTime''
      = Inr (JNum (lastActivityTime (stats s)))"
    by (simp add: get_prop_def stats_object_def)
  have sent: "own_prop (session_object s) ''systemSent'' = JBool (systemSent s)"
    and status: "own_prop (session_object s) ''status'' = JStr (status_string (status s))"
    by (simp_all add: session_object_def)
  show ?thesis
  proof (cases "timeout (config s)")
    case None
    then show ?thesis
      by (simp add: isZombieSession_raw_def isZombieSession_def g1 g2 g3 g4 sent status
            timeout_or_default_def Let_def)
  next
    case (Some t)
    then show ?thesis
      by (simp add: isZombieSession_raw_def isZombieSession_def g1 g2 g3 g4 sent status
            timeout_or_default_def Let_def)
  qed
qed

text \<open>
  A session that \<^verbatim>\<open>createSession\<close> stored with a configuration key outside the
  allow-list does not pass \<^verbatim>\<open>validateSession\<close> when it is read back.
\<close>

lemma created_with_unknown_key_invalid:
  assumes "\<not> config_keys c \<subseteq> set sessionConfigKeys"
  shows "\<not> validateSession (session_object (fst (createSession now i n c m)))"
proof -
  let ?c = "c\<lparr> timeout := Some (timeout_or_default (timeout c)) \<rparr>"
  from config_object_keys [of c] obtain ps where ps: "config_object c = JObj (ps @ otherKeys c)"
    "set (map fst ps) \<subseteq> set sessionConfigKeys"
    by blast
  with assms obtain key where key: "key \<in> fst ` set (otherKeys c)" "key \<notin> set sessionConfigKeys"
    by (auto simp: config_keys_def)
  from config_object_keys [of ?c] obtain qs where
    qs: "config_object ?c = JObj (qs @ otherKeys ?c)"
    by blast
  with key have "key \<in> set (object_keys (config_object ?c))"
    by auto
  moreover from key(2) have "key \<notin> set allowedConfigKeys"
    by (simp add: sessionConfigKeys_def allowedConfigKeys_def)
  moreover have "own_prop (session_object (fst (createSession now i n c m))) ''config''
      = config_object ?c"
    by (simp add: session_object_def createSession_def Let_def)
  ultimately have "has_unknown_config_key (session_object (fst (createSession now i n c m)))"
    unfolding has_unknown_config_key_def by auto
  then show ?thesis by (rule unknown_key_invalid)
qed

section \<open>Properties of the skill verifier\<close>

lemma updateSkillStatus_other [simp]:
  "verificationPromises (updateSkillStatus i st e w) = verificationPromises w"
  "promises (updateSkillStatus i st e w) = promises w"
  "network_calls (updateSkillStatus i st e w) = network_calls w"
  "manager (updateSkillStatus i st e w) = manager w"
  by (simp_all add: updateSkillStatus_def split: option.splits)

lemma status_at_updateSkillStatus:
  "status_at (updateSkillStatus j st e w) i =
     (if i = j \<and> map_of (skills w) j \<noteq> None then Some st else status_at w i)"
  by (auto simp: status_at_def updateSkillStatus_def update_conv' split: option.splits)

lemma registered_fresh:
  "registerOperation s m = (c, m') \<Longrightarrow> \<not> signal_aborted m' c"
  by (auto simp: registerOperation_def signal_aborted_def Let_def nth_append)

lemma performVerification_starts:
  assumes "performVerification now skill sid tmo w = (p, w1)"
  shows "p = length (promises w) \<and>
         task_of w1 p = Some \<lparr> t_skill_id = skill_id skill, t_skill_name = skill_name skill,
           t_url = (case verificationUrl skill of Some u \<Rightarrow> u | None \<Rightarrow> []),
           t_sessionId = sid, t_timeout = tmo,
           t_controller = (if has_session sid then Some (length (controllers (manager w1)) - 1) else None),
           t_lastError = None, t_attempt = 0, t_phase = Fetching \<rparr> \<and>
         result_of w1 p = None \<and>
         network_calls w1 = network_calls w @
           [(p, case verificationUrl skill of Some u \<Rightarrow> u | None \<Rightarrow> [])] \<and>
         skills w1 = skills (updateSkillStatus (skill_id skill) Verifying None w) \<and>
         verificationPromises w1 = verificationPromises w"
proof (cases "has_session sid")
  case False
  with assms show ?thesis
    by (auto simp: performVerification_def loop_head_def token_fired_def suspend_def
          task_of_def result_of_def Let_def nth_append)
next
  case True
  obtain c m' where reg: "registerOperation (case sid of Some s \<Rightarrow> s | None \<Rightarrow> [])
      (manager w) = (c, m')"
    by (cases "registerOperation (case sid of Some s \<Rightarrow> s | None \<Rightarrow> []) (manager w)")
  then have fresh: "\<not> signal_aborted m' c" by (rule registered_fresh)
  from reg have c: "c = length (controllers m') - 1"
    by (auto simp: registerOperation_def Let_def)
  from assms True reg fresh c show ?thesis
    by (auto simp: performVerification_def loop_head_def token_fired_def suspend_def
          task_of_def result_of_def Let_def nth_append)
qed

lemma result_of_fields [simp]:
  "result_of (w\<lparr> verificationPromises := vp \<rparr>) p = result_of w p"
  "result_of (w\<lparr> manager := m \<rparr>) p = result_of w p"
  "result_of (w\<lparr> network_calls := n \<rparr>) p = result_of w p"
  "result_of (w\<lparr> skills := sk \<rparr>) p = result_of w p"
  by (simp_all add: result_of_def)

lemma task_of_fields [simp]:
  "task_of (w\<lparr> verificationPromises := vp \<rparr>) p = task_of w p"
  "task_of (w\<lparr> manager := m \<rparr>) p = task_of w p"
  "task_of (w\<lparr> network_calls := n \<rparr>) p = task_of w p"
  "task_of (w\<lparr> skills := sk \<rparr>) p = task_of w p"
  by (simp_all add: task_of_def)

text \<open>
  Claim C10, as stated: every registered skill that is disabled and has no
  \<^verbatim>\<open>verificationUrl\<close> is verified by a direct \<^verbatim>\<open>verifySkill\<close> call. The lookup of a
  pending verification comes first: when the id was registered again without a URL
  while its verification was pending, and then disabled, the call joins the pending
  promise and the skill stays disabled.
\<close>

theorem verifySkill_disabled_counterexample:
  "status_at w_disabled ''moltbook'' = Some Disabled \<and>
   map_option verificationUrl (map_of (skills w_disabled) ''moltbook'') = Some None \<and>
   verifySkill 200 ''moltbook'' None 5000 w_disabled = (Pending 0, w_disabled) \<and>
   received w_disabled (Pending 0) = None"
  by code_simp

lemma areAllSkillsVerified_iff:
  "areAllSkillsVerified w =
     (\<forall>(k, s) \<in> set (skills w). skill_status s \<noteq> Disabled \<longrightarrow> skill_status s = Verified)"
  by (auto simp: areAllSkillsVerified_def getAllSkills_def list_all_iff)

lemma wf_lookup:
  "skills_wf w \<Longrightarrow> (k, s) \<in> set (skills w) \<Longrightarrow>
     skill_id s = k \<and> map_of (skills w) k = Some s"
  by (auto simp: skills_wf_def list_all_iff)

lemma scanned_ids:
  assumes "skills_wf w"
  shows "set (map skill_id (filter (\<lambda>s. skill_status s = Unverified) (getAllSkills w))) =
           {i. status_at w i = Some Unverified}"
proof (intro set_eqI iffI)
  fix i
  assume "i \<in> set (map skill_id (filter (\<lambda>s. skill_status s = Unverified) (getAllSkills w)))"
  then obtain k s where ks: "(k, s) \<in> set (skills w)" and u: "skill_status s = Unverified"
    and i: "i = skill_id s"
    by (auto simp: getAllSkills_def)
  from wf_lookup [OF assms ks] i u show "i \<in> {i. status_at w i = Some Unverified}"
    by (simp add: status_at_def)
next
  fix i
  assume "i \<in> {i. status_at w i = Some Unverified}"
  then obtain s where m: "map_of (skills w) i = Some s" and u: "skill_status s = Unverified"
    by (auto simp: status_at_def)
  from m have ks: "(i, s) \<in> set (skills w)" by (rule map_of_SomeD)
  from wf_lookup [OF assms ks] have "skill_id s = i" by simp
  with ks u show "i \<in> set (map skill_id (filter (\<lambda>s. skill_status s = Unverified) (getAllSkills w)))"
    by (force simp: getAllSkills_def)
qed

lemma verifyAllSkills_scanned:
  assumes "skills_wf w" and "verifyAllSkills now sid tmo w = (Inr b, w')"
  shows "set (b_scanned b) = {i. status_at w i = Some Unverified} \<and> b_deadline b = tmo * 2"
proof -
  from assms(2)
  have "b_scanned b = map skill_id (filter (\<lambda>s. skill_status s = Unverified) (getAllSkills w))"
    and "b_deadline b = tmo * 2"
    by (auto simp: verifyAllSkills_def Let_def split: if_splits prod.splits)
  with scanned_ids [OF assms(1)] show ?thesis by simp
qed

text \<open>
  Claim C10, amended. For a registered skill that is disabled and has no verification
  pending under its id: without a \<^verbatim>\<open>verificationUrl\<close>, \<^verbatim>\<open>verifySkill\<close> succeeds at
  once and sets the status to verified; with one, it starts the verification (status
  verifying, one network call issued, the promise filed under the id). The scan of
  \<^verbatim>\<open>verifyAllSkills\<close> leaves the skill out, and \<^verbatim>\<open>areAllSkillsVerified\<close> passes
  over disabled skills.
\<close>

theorem verifySkill_ignores_disabled:
  assumes "map_of (skills w) i = Some skill" and "skill_status skill = Disabled"
    and "map_of (verificationPromises w) i = None" and "skills_wf w"
  shows "(\<not> has_url skill \<longrightarrow>
            verifySkill now i sid tmo w =
              (Resolved \<lparr> success = True,
                          result_skill = Some (skill\<lparr> skill_status := Verified,
                                                    skill_error := None \<rparr>),
                          result_error = None \<rparr>,
               updateSkillStatus i Verified None w) \<and>
            status_at (snd (verifySkill now i sid tmo w)) i = Some Verified) \<and>
         (has_url skill \<longrightarrow>
            fst (verifySkill now i sid tmo w) = Pending (length (promises w)) \<and>
            status_at (snd (verifySkill now i sid tmo w)) i = Some Verifying \<and>
            map_of (verificationPromises (snd (verifySkill now i sid tmo w))) i =
              Some (length (promises w)) \<and>
            length (network_calls (snd (verifySkill now i sid tmo w))) =
              Suc (length (network_calls w))) \<and>
         (\<forall>b w'. verifyAllSkills now sid tmo w = (Inr b, w') \<longrightarrow> i \<notin> set (b_scanned b)) \<and>
         areAllSkillsVerified w =
           (\<forall>(k, s) \<in> set (skills w). skill_status s \<noteq> Disabled \<longrightarrow> skill_status s = Verified)"
proof -
  have no_url: "\<not> has_url skill \<longrightarrow>
            verifySkill now i sid tmo w =
              (Resolved \<lparr> success = True,
                          result_skill = Some (skill\<lparr> skill_status := Verified,
                                                    skill_error := None \<rparr>),
                          result_error = None \<rparr>,
               updateSkillStatus i Verified None w) \<and>
            status_at (snd (verifySkill now i sid tmo w)) i = Some Verified"
    using assms(1,3)
    by (simp add: verifySkill_def Let_def status_at_updateSkillStatus)
       (simp add: updateSkillStatus_def update_conv')
  have url: "has_url skill \<longrightarrow>
            fst (verifySkill now i sid tmo w) = Pending (length (promises w)) \<and>
            status_at (snd (verifySkill now i sid tmo w)) i = Some Verifying \<and>
            map_of (verificationPromises (snd (verifySkill now i sid tmo w))) i =
              Some (length (promises w)) \<and>
            length (network_calls (snd (verifySkill now i sid tmo w))) =
              Suc (length (network_calls w))"
  proof
    assume u: "has_url skill"
    obtain p w1 where pv: "performVerification now skill sid tmo w = (p, w1)"
      by (cases "performVerification now skill sid tmo w")
    from assms(1) have "(i, skill) \<in> set (skills w)"
      by (rule map_of_SomeD)
    with assms(4) have id: "skill_id skill = i"
      using wf_lookup by blast
    note st = performVerification_starts [OF pv]
    from st have p: "p = length (promises w)"
      and r: "result_of w1 (length (promises w)) = None"
      and n: "network_calls w1 = network_calls w @
           [(p, case verificationUrl skill of Some u \<Rightarrow> u | None \<Rightarrow> [])]"
      and sk: "skills w1 = skills (updateSkillStatus i Verifying None w)"
      and vp: "verificationPromises w1 = verificationPromises w"
      using id by auto
    from sk have v: "status_at w1 i = Some Verifying"
      using assms(1) status_at_updateSkillStatus [of i Verifying None w i]
      by (simp add: status_at_def)
    from p r n vp v pv u assms(1,3) show "fst (verifySkill now i sid tmo w) = Pending (length (promises w)) \<and>
            status_at (snd (verifySkill now i sid tmo w)) i = Some Verifying \<and>
            map_of (verificationPromises (snd (verifySkill now i sid tmo w))) i =
              Some (length (promises w)) \<and>
            length (network_calls (snd (verifySkill now i sid tmo w))) =
              Suc (length (network_calls w))"
      by (simp add: verifySkill_def finally_delete_def update_conv' status_at_def)
  qed
  have scan: "\<forall>b w'. verifyAllSkills now sid tmo w = (Inr b, w') \<longrightarrow> i \<notin> set (b_scanned b)"
    using verifyAllSkills_scanned [OF assms(4)] assms(1,2)
    by (auto simp: status_at_def)
  show ?thesis
    by (intro conjI no_url url scan areAllSkillsVerified_iff)
qed

theorem verifySkill_ignores_disabled_witness:
  "status_at w_two_disabled ''local'' = Some Disabled \<and>
   status_at (snd (verifySkill 100 ''local'' None 5000 w_two_disabled)) ''local''
     = Some Verified \<and>
   status_at w_two_disabled ''moltbook'' = Some Disabled \<and>
   status_at (snd (verifySkill 100 ''moltbook'' None 5000 w_two_disabled)) ''moltbook''
     = Some Verifying \<and>
   fst (verifySkill 100 ''moltbook'' None 5000 w_two_disabled) = Pending 0"
proof -
  have l: "map_of (skills w_two_disabled) ''local'' = Some local_skill"
    and m: "map_of (skills w_two_disabled) ''moltbook'' = Some moltbook_skill"
    and idle: "map_of (verificationPromises w_two_disabled) ''local'' = None"
      "map_of (verificationPromises w_two_disabled) ''moltbook'' = None"
    and wf: "skills_wf w_two_disabled"
    and none: "promises w_two_disabled = []"
    by code_simp+
  have dl: "skill_status local_skill = Disabled" and ul: "\<not> has_url local_skill"
    and dm: "skill_status moltbook_skill = Disabled" and um: "has_url moltbook_skill"
    by code_simp+
  from verifySkill_ignores_disabled [OF l dl idle(1) wf, of 100 None 5000] ul
  have a: "status_at (snd (verifySkill 100 ''local'' None 5000 w_two_disabled)) ''local''
     = Some Verified"
    by blast
  from verifySkill_ignores_disabled [OF m dm idle(2) wf, of 100 None 5000] um none
  have b: "status_at (snd (verifySkill 100 ''moltbook'' None 5000 w_two_disabled)) ''moltbook''
     = Some Verifying \<and>
     fst (verifySkill 100 ''moltbook'' None 5000 w_two_disabled) = Pending 0"
    by simp
  from l m dl dm a b show ?thesis
    by (simp add: status_at_def)
qed

section \<open>Coalescing of concurrent calls\<close>




section \<open>Cancellation during the backoff\<close>





lemma modify_skill_other [simp]:
  "verificationPromises (modify_skill i f w) = verificationPromises w"
  "promises (modify_skill i f w) = promises w"
  "network_calls (modify_skill i f w) = network_calls w"
  "manager (modify_skill i f w) = manager w"
  by (simp_all add: modify_skill_def split: option.splits)

lemma suspend_other [simp]:
  "verificationPromises (suspend p t w) = verificationPromises w"
  "skills (suspend p t w) = skills w"
  "network_calls (suspend p t w) = network_calls w"
  "manager (suspend p t w) = manager w"
  "length (promises (suspend p t w)) = length (promises w)"
  by (simp_all add: suspend_def)

lemma resolve_task_other [simp]:
  "verificationPromises (resolve_task p r w) = verificationPromises w"
  "skills (resolve_task p r w) = skills w"
  "network_calls (resolve_task p r w) = network_calls w"
  "manager (resolve_task p r w) = manager w"
  "length (promises (resolve_task p r w)) = length (promises w)"
  by (simp_all add: resolve_task_def)

lemma finally_delete_other [simp]:
  "promises (finally_delete p i w) = promises w"
  "skills (finally_delete p i w) = skills w"
  "network_calls (finally_delete p i w) = network_calls w"
  "manager (finally_delete p i w) = manager w"
  "task_of (finally_delete p i w) q = task_of w q"
  "result_of (finally_delete p i w) q = result_of w q"
  by (simp_all add: finally_delete_def task_of_def result_of_def)






section \<open>The deadline of verifyAllSkills\<close>

lemma progresses_refl: "progresses w w"
  by (simp add: progresses_def)

lemma progressesD:
  "progresses w w' \<Longrightarrow> map_of (skills w) i = Some s \<Longrightarrow>
     \<exists>s'. map_of (skills w') i = Some s' \<and> skill_id s' = skill_id s \<and>
       (skill_status s' = skill_status s \<or> skill_status s' \<in> {Verifying, Verified, Failed})"
  by (simp add: progresses_def)

lemma progresses_keys: "progresses w w' \<Longrightarrow> map fst (skills w') = map fst (skills w)"
  by (simp add: progresses_def)

lemma progresses_trans:
  assumes "progresses w w1" and "progresses w1 w2"
  shows "progresses w w2"
  unfolding progresses_def
proof (intro conjI allI impI)
  show "map fst (skills w2) = map fst (skills w)"
    using assms by (simp add: progresses_keys)
next
  fix i s
  assume s: "map_of (skills w) i = Some s"
  from progressesD [OF assms(1) s] obtain s1 where s1: "map_of (skills w1) i = Some s1"
    "skill_id s1 = skill_id s"
    "skill_status s1 = skill_status s \<or> skill_status s1 \<in> {Verifying, Verified, Failed}"
    by blast
  from progressesD [OF assms(2) s1(1)] obtain s2 where s2: "map_of (skills w2) i = Some s2"
    "skill_id s2 = skill_id s1"
    "skill_status s2 = skill_status s1 \<or> skill_status s2 \<in> {Verifying, Verified, Failed}"
    by blast
  from s1 s2 show "\<exists>s'. map_of (skills w2) i = Some s' \<and> skill_id s' = skill_id s \<and>
           (skill_status s' = skill_status s \<or>
            skill_status s' \<in> {Verifying, Verified, Failed})"
    by auto
qed

lemma update_present_keys:
  "map_of al k = Some v \<Longrightarrow> map fst (AList.update k v' al) = map fst al"
  by (simp add: update_keys map_of_eq_None_iff [symmetric] del: map_of_eq_None_iff)

lemma progresses_same: "skills w' = skills w \<Longrightarrow> progresses w w'"
  by (simp add: progresses_def)

lemma updateSkillStatus_progresses:
  "st \<in> {Verifying, Verified, Failed} \<Longrightarrow> progresses w (updateSkillStatus i st e w)"
  by (auto simp: progresses_def updateSkillStatus_def update_conv' update_present_keys
        split: option.splits)

lemma modify_skill_progresses:
  "(\<And>s. skill_status (f s) = skill_status s \<and> skill_id (f s) = skill_id s) \<Longrightarrow>
     progresses w (modify_skill i f w)"
  by (auto simp: progresses_def modify_skill_def update_conv' update_present_keys
        split: option.splits)

lemma cancelled_progresses: "progresses w (cancelled now p task w)"
  unfolding cancelled_def Let_def
  by (rule progresses_trans [OF updateSkillStatus_progresses progresses_same]) simp_all

lemma verification_failed_progresses: "progresses w (verification_failed now p task w)"
proof -
  let ?w1 = "updateSkillStatus (t_skill_id task) Failed (t_lastError task) w"
  have "progresses w ?w1"
    by (rule updateSkillStatus_progresses) simp
  moreover have "progresses ?w1 (verification_failed now p task w)"
    by (rule progresses_same) (simp add: verification_failed_def Let_def split: option.splits)
  ultimately show ?thesis by (rule progresses_trans)
qed

lemma loop_head_progresses: "progresses w (loop_head now p task w)"
  by (simp add: loop_head_def cancelled_progresses verification_failed_progresses
        progresses_same)

lemma verification_succeeded_progresses: "progresses w (verification_succeeded now p task w)"
proof -
  let ?w1 = "updateSkillStatus (t_skill_id task) Verified None w"
  let ?w2 = "modify_skill (t_skill_id task) (\<lambda>s. s\<lparr> lastVerified := Some now \<rparr>) ?w1"
  let ?w3 = "modify_skill (t_skill_id task) (\<lambda>s. s\<lparr> retryCount := 0 \<rparr>) ?w2"
  have "progresses w ?w1" by (rule updateSkillStatus_progresses) simp
  moreover have "progresses ?w1 ?w2" by (rule modify_skill_progresses) simp
  moreover have "progresses ?w2 ?w3" by (rule modify_skill_progresses) simp
  ultimately have "progresses w ?w3" by (blast intro: progresses_trans)
  moreover have "progresses ?w3 (verification_succeeded now p task w)"
    by (rule progresses_same) (simp add: verification_succeeded_def Let_def split: option.splits)
  ultimately show ?thesis by (rule progresses_trans)
qed

lemma on_error_progresses: "progresses w (on_error now p task err w)"
proof -
  have "progresses w (suspend p t' (modify_skill i f w))"
    if "\<And>s. skill_status (f s) = skill_status s \<and> skill_id (f s) = skill_id s" for t' i f
    by (rule progresses_trans [OF modify_skill_progresses progresses_same]) (simp_all add: that)
  then show ?thesis
    by (simp add: on_error_def Let_def cancelled_progresses verification_failed_progresses)
qed

lemma finally_delete_progresses: "progresses w w' \<Longrightarrow> progresses w (finally_delete p i w')"
  by (erule progresses_trans) (simp add: progresses_same)

lemma fetch_settled_progresses: "progresses w (fetch_settled now p outcome w)"
  by (auto simp: fetch_settled_def progresses_refl split: option.splits fetch_outcome.splits
        intro!: finally_delete_progresses verification_succeeded_progresses on_error_progresses)

lemma timer_fired_progresses: "progresses w (timer_fired now p w)"
  by (auto simp: timer_fired_def progresses_refl split: option.splits phase.splits
        intro!: finally_delete_progresses loop_head_progresses)

lemma performVerification_progresses:
  "progresses w (snd (performVerification now skill sid tmo w))"
proof -
  obtain p w1 where pv: "performVerification now skill sid tmo w = (p, w1)"
    by (cases "performVerification now skill sid tmo w")
  from performVerification_starts [OF pv]
  have "skills w1 = skills (updateSkillStatus (skill_id skill) Verifying None w)"
    by simp
  then have "progresses (updateSkillStatus (skill_id skill) Verifying None w) w1"
    by (rule progresses_same)
  with pv show ?thesis
    using progresses_trans [OF updateSkillStatus_progresses [of Verifying w "skill_id skill" None]]
    by simp
qed

lemma verifySkill_progresses: "progresses w (snd (verifySkill now i sid tmo w))"
proof (cases "map_of (skills w) i")
  case None
  then show ?thesis by (simp add: verifySkill_def progresses_refl)
next
  case (Some skill)
  show ?thesis
  proof (cases "map_of (verificationPromises w) i")
    case (Some p)
    with \<open>map_of (skills w) i = Some skill\<close> show ?thesis
      by (simp add: verifySkill_def progresses_refl)
  next
    case None
    show ?thesis
    proof (cases "has_url skill")
      case False
      with None \<open>map_of (skills w) i = Some skill\<close> show ?thesis
        by (simp add: verifySkill_def Let_def updateSkillStatus_progresses)
    next
      case True
      obtain p w1 where pv: "performVerification now skill sid tmo w = (p, w1)"
        by (cases "performVerification now skill sid tmo w")
      from performVerification_progresses [of w now skill sid tmo] pv
      have "progresses w w1" by simp
      then have "progresses w (finally_delete p i
          (w1\<lparr> verificationPromises := AList.update i p (verificationPromises w1) \<rparr>))"
        by (intro finally_delete_progresses) (erule progresses_trans, simp add: progresses_same)
      with True None \<open>map_of (skills w) i = Some skill\<close> pv show ?thesis
        by (simp add: verifySkill_def)
    qed
  qed
qed

lemma force_failed_refl: "force_failed w w"
  by (simp add: force_failed_def)

lemma force_failed_keys: "force_failed w w' \<Longrightarrow> map fst (skills w') = map fst (skills w)"
  by (simp add: force_failed_def)

lemma force_failedD:
  "force_failed w w' \<Longrightarrow> map_of (skills w) i = Some s \<Longrightarrow>
     \<exists>s'. map_of (skills w') i = Some s' \<and>
       (s' = s \<or> (skill_status s = Verifying \<and> skill_status s' = Failed \<and>
          skill_id s' = skill_id s \<and>
          map_option code (skill_error s') = Some ''VERIFICATION_TIMEOUT''))"
  by (simp add: force_failed_def)

lemma force_failed_trans:
  assumes "force_failed w w1" and "force_failed w1 w2"
  shows "force_failed w w2"
  unfolding force_failed_def
proof (intro conjI allI impI)
  show "map fst (skills w2) = map fst (skills w)"
    using assms by (simp add: force_failed_keys)
next
  fix i s
  assume s: "map_of (skills w) i = Some s"
  from force_failedD [OF assms(1) s] obtain s1 where s1: "map_of (skills w1) i = Some s1"
    "s1 = s \<or> (skill_status s = Verifying \<and> skill_status s1 = Failed \<and>
       skill_id s1 = skill_id s \<and>
       map_option code (skill_error s1) = Some ''VERIFICATION_TIMEOUT'')"
    by blast
  from force_failedD [OF assms(2) s1(1)] obtain s2 where s2: "map_of (skills w2) i = Some s2"
    "s2 = s1 \<or> (skill_status s1 = Verifying \<and> skill_status s2 = Failed \<and>
       skill_id s2 = skill_id s1 \<and>
       map_option code (skill_error s2) = Some ''VERIFICATION_TIMEOUT'')"
    by blast
  from s1(2) s2 show "\<exists>s'. map_of (skills w2) i = Some s' \<and>
           (s' = s \<or>
            (skill_status s = Verifying \<and> skill_status s' = Failed \<and>
             skill_id s' = skill_id s \<and>
             map_option code (skill_error s') = Some ''VERIFICATION_TIMEOUT''))"
    by auto
qed

lemma force_failed_step:
  assumes "map_of (skills w) i = Some skill" and "skill_status skill = Verifying"
  shows "force_failed w
           (updateSkillStatus i Failed
              (Some \<lparr> code = ''VERIFICATION_TIMEOUT'', message = m,
                      isNetworkError_flag = n, timestamp = t \<rparr>) w)"
  using assms
  by (auto simp: force_failed_def updateSkillStatus_def update_conv' update_present_keys)

text \<open>One round of the handler's loop, as a state change.\<close>

lemma on_deadline_Cons:
  "snd (on_deadline now (j # ids) w) =
     snd (on_deadline now ids
       (if (\<exists>s. map_of (skills w) j = Some s \<and> skill_status s = Verifying)
        then updateSkillStatus j Failed
              (Some \<lparr> code = ''VERIFICATION_TIMEOUT'',
                      message = ''Skill verification timed out'',
                      isNetworkError_flag = False, timestamp = now \<rparr>) w
        else w))"
  by (auto simp: Let_def split: option.splits prod.splits)

lemma on_deadline_force_failed: "force_failed w (snd (on_deadline now ids w))"
proof (induction ids arbitrary: w)
  case Nil
  show ?case by (simp add: force_failed_refl)
next
  case (Cons j ids)
  let ?w1 = "updateSkillStatus j Failed
              (Some \<lparr> code = ''VERIFICATION_TIMEOUT'',
                      message = ''Skill verification timed out'',
                      isNetworkError_flag = False, timestamp = now \<rparr>) w"
  show ?case
  proof (cases "\<exists>s. map_of (skills w) j = Some s \<and> skill_status s = Verifying")
    case True
    then obtain s where "map_of (skills w) j = Some s" "skill_status s = Verifying"
      by blast
    then have "force_failed w ?w1"
      by (rule force_failed_step)
    then have "force_failed w (snd (on_deadline now ids ?w1))"
      using Cons.IH by (rule force_failed_trans)
    with True show ?thesis
      by (simp only: on_deadline_Cons if_True)
  next
    case False
    with Cons.IH [of w] show ?thesis
      by (simp only: on_deadline_Cons if_False)
  qed
qed


lemma force_failed_progresses:
  assumes "force_failed w w'"
  shows "progresses w w'"
  unfolding progresses_def
proof (intro conjI allI impI)
  show "map fst (skills w') = map fst (skills w)"
    using assms by (rule force_failed_keys)
next
  fix i s
  assume "map_of (skills w) i = Some s"
  from force_failedD [OF assms this]
  show "\<exists>s'. map_of (skills w') i = Some s' \<and> skill_id s' = skill_id s \<and>
           (skill_status s' = skill_status s \<or>
            skill_status s' \<in> {Verifying, Verified, Failed})"
    by auto
qed

lemma deadline_fired_progresses: "progresses w (snd (deadline_fired now b w))"
  by (auto simp: deadline_fired_def progresses_refl split: option.splits
        intro: force_failed_progresses on_deadline_force_failed)

lemma verifier_event_progresses: "verifier_event w w' \<Longrightarrow> progresses w w'"
  by (induction rule: verifier_event.induct)
     (simp_all add: verifySkill_progresses fetch_settled_progresses timer_fired_progresses
        deadline_fired_progresses progresses_same)

lemma events_progress: "rtranclp verifier_event w w' \<Longrightarrow> progresses w w'"
  by (induction rule: rtranclp_induct)
     (auto intro: progresses_refl progresses_trans verifier_event_progresses)





lemma verify_each_Cons:
  "snd (verify_each now sid tmo (j # ids) w) =
     snd (verify_each now sid tmo ids (snd (verifySkill now j sid tmo w)))"
  "fst (verify_each now sid tmo (j # ids) w) =
     fst (verifySkill now j sid tmo w) #
     fst (verify_each now sid tmo ids (snd (verifySkill now j sid tmo w)))"
  by (simp_all add: case_prod_unfold)

lemma verify_each_progresses: "progresses w (snd (verify_each now sid tmo ids w))"
proof (induction ids arbitrary: w)
  case Nil
  show ?case by (simp add: progresses_refl)
next
  case (Cons j ids)
  have "progresses w (snd (verifySkill now j sid tmo w))"
    by (rule verifySkill_progresses)
  moreover have "progresses (snd (verifySkill now j sid tmo w))
      (snd (verify_each now sid tmo ids (snd (verifySkill now j sid tmo w))))"
    by (rule Cons.IH)
  ultimately have "progresses w
      (snd (verify_each now sid tmo ids (snd (verifySkill now j sid tmo w))))"
    by (rule progresses_trans)
  then show ?case by (simp only: verify_each_Cons)
qed







subsection \<open>The registry stays well formed\<close>

lemma skills_wf_new: "skills_wf new_verifier"
  by (simp add: skills_wf_def new_verifier_def)

lemma skills_wf_update:
  assumes "distinct (map fst al)" and "list_all (\<lambda>(k, s). skill_id s = k) al"
    and "skill_id v = i"
  shows "distinct (map fst (AList.update i v al)) \<and>
         list_all (\<lambda>(k, s). skill_id s = k) (AList.update i v al)"
proof
  show "distinct (map fst (AList.update i v al))"
    using assms(1) by (rule distinct_update)
  show "list_all (\<lambda>(k, s). skill_id s = k) (AList.update i v al)"
    using assms(2,3) by (auto simp: list_all_iff dest!: in_set_update)
qed

lemma registerSkill_wf: "skills_wf w \<Longrightarrow> skills_wf (snd (registerSkill i n d url w))"
  using skills_wf_update [of "skills w" _ i]
  by (simp add: skills_wf_def registerSkill_def Let_def)

lemma progresses_wf:
  assumes "progresses w w'" and "skills_wf w"
  shows "skills_wf w'"
proof -
  from assms have d: "distinct (map fst (skills w'))"
    by (simp add: progresses_keys skills_wf_def)
  have "skill_id s' = k" if ks: "(k, s') \<in> set (skills w')" for k s'
  proof -
    from ks have "k \<in> set (map fst (skills w'))"
      by force
    then have "k \<in> set (map fst (skills w))"
      by (simp only: progresses_keys [OF assms(1)])
    then obtain s where s: "(k, s) \<in> set (skills w)"
      by auto
    from wf_lookup [OF assms(2) s]
    have m: "map_of (skills w) k = Some s" and id: "skill_id s = k"
      by simp_all
    from progressesD [OF assms(1) m] obtain s'' where
      "map_of (skills w') k = Some s''" "skill_id s'' = skill_id s"
      by blast
    moreover from d ks have "map_of (skills w') k = Some s'"
      by simp
    ultimately show ?thesis using id by simp
  qed
  with d show ?thesis
    by (auto simp: skills_wf_def list_all_iff)
qed

lemma events_wf: "rtranclp verifier_event w w' \<Longrightarrow> skills_wf w \<Longrightarrow> skills_wf w'"
  by (rule progresses_wf [OF events_progress])

lemma verifyAllSkills_wf:
  "skills_wf w \<Longrightarrow> skills_wf (snd (verifyAllSkills now sid tmo w))"
  using progresses_wf [OF verify_each_progresses]
  by (simp add: verifyAllSkills_def Let_def case_prod_unfold)

lemma status_change_wf:
  assumes "skills_wf w" and "map_of (skills w) i = Some s"
  shows "skills_wf (w\<lparr> skills := AList.update i
           (s\<lparr> skill_status := st, skill_error := e, retryCount := r \<rparr>) (skills w) \<rparr>)"
proof -
  from assms(2) have "(i, s) \<in> set (skills w)" by (rule map_of_SomeD)
  with assms(1) have "skill_id s = i" using wf_lookup by blast
  with assms(1) skills_wf_update [of "skills w"
      "s\<lparr> skill_status := st, skill_error := e, retryCount := r \<rparr>" i]
  show ?thesis by (simp add: skills_wf_def)
qed

lemma disableSkill_wf: "skills_wf w \<Longrightarrow> skills_wf (disableSkill i w)"
proof (cases "map_of (skills w) i")
  case None
  assume "skills_wf w"
  with None show ?thesis by (simp add: disableSkill_def updateSkillStatus_def)
next
  case (Some s)
  assume "skills_wf w"
  from status_change_wf [OF this Some, where st = Disabled and e = None and r = "retryCount s"]
    Some
  show ?thesis by (simp add: disableSkill_def updateSkillStatus_def)
qed

lemma enableSkill_wf: "skills_wf w \<Longrightarrow> skills_wf (enableSkill i w)"
  using status_change_wf [where w = w and i = i and st = Unverified and e = None and r = 0]
  by (auto simp: enableSkill_def split: option.splits)

lemma resetSkill_wf: "skills_wf w \<Longrightarrow> skills_wf (resetSkill i w)"
  using status_change_wf [where w = w and i = i and st = Unverified and e = None and r = 0]
  by (auto simp: resetSkill_def split: option.splits)

end
